theory Spec2Isabelle
  imports Main "HOL-Library.Word" "HOL-Library.Sublist"
begin

section \<open>The world the two scripts run in\<close>

text \<open>
  \<^verbatim>\<open>fix_icon.py\<close> and \<^verbatim>\<open>resize_logo.py\<close> are straight-line scripts over the file
  system, the console and the Pillow imaging library. The embedding makes these three
  explicit: a world (the file tree and the chronological list of completed effects) is
  passed through every call and returned updated, and every call that can raise returns
  \<open>Inl\<close> of the exception together with the world as the raise leaves it.

  A path is the list of its components, relative to the working directory: the Python
  string \<^verbatim>\<open>android/app\<close> is \<open>[''android'', ''app'']\<close> and \<open>[]\<close> is the working
  directory itself.
\<close>

type_synonym path = "string list"

text \<open>
  A decoded image as Pillow presents it: \<^verbatim>\<open>img.mode\<close>, \<^verbatim>\<open>img.size\<close> (width, height),
  \<^verbatim>\<open>img.format\<close> (the container format the file was identified as, \<open>None\<close> for an image
  made in memory) and the raster, one list of 8-bit band values per pixel in the order of
  the mode's bands (\<open>[r, g, b, a]\<close> for RGBA, \<open>[l, a]\<close> for LA, \<open>[r, g, b]\<close> for RGB).
  \<^verbatim>\<open>Image.open\<close> reads the header only; \<open>intact\<close> says whether the pixel data can be
  loaded when an operation first needs it (a truncated file identifies but does not load).
\<close>

type_synonym pixel = "8 word list"
type_synonym raster = "nat \<Rightarrow> nat \<Rightarrow> pixel"
type_synonym band = "nat \<Rightarrow> nat \<Rightarrow> 8 word"

record image =
  mode :: string
  size_wh :: "nat \<times> nat"
  format :: "string option"
  pixels :: raster
  intact :: bool

text \<open>
  What a regular file holds: an encoded image (given as the image it decodes to) or bytes
  that Pillow cannot identify. A regular file carries its write permission.
\<close>

datatype content = Decodable image | Garbage

datatype node = Dir | File bool content

text \<open>The exceptions the modelled calls raise; all of them derive from \<^verbatim>\<open>Exception\<close>.\<close>

datatype error =
    FileNotFoundError
  | IsADirectoryError
  | NotADirectoryError
  | FileExistsError
  | PermissionError
  | UnidentifiedImageError
  | TruncatedImageError
  | CannotWriteMode string
  | LibraryError string

text \<open>
  The lines the scripts print, one constructor per \<^verbatim>\<open>print\<close> call with the interpolated
  values as arguments (the literal texts start with an emoji and are not reproduced):
  \<^item> \<open>FixedTransparency p\<close>: "Fixed transparency in p";
  \<^item> \<open>IconNotFound p\<close>: "Icon file not found: p";
  \<^item> \<open>ResizingBanner\<close>: "Resizing Jumpz logo for Android app icons...";
  \<^item> \<open>LogoNotFound\<close>: "logo.png not found in current directory";
  \<^item> \<open>OriginalLogoSize s\<close>: "Original logo size: s";
  \<^item> \<open>CreatedIcon folder n\<close>: "Created folder icon (nxn)";
  \<^item> \<open>ResizingComplete\<close>, \<open>AllIconsCreated\<close>, \<open>WillDisplayLogo\<close>: the three closing lines;
  \<^item> \<open>ErrorResizingLogo e\<close>: "Error resizing logo: e".
\<close>

datatype message =
    FixedTransparency path
  | IconNotFound path
  | ResizingBanner
  | LogoNotFound
  | OriginalLogoSize "nat \<times> nat"
  | CreatedIcon string nat
  | ResizingComplete
  | AllIconsCreated
  | WillDisplayLogo
  | ErrorResizingLogo error

text \<open>
  An effect that has completed: a printed line, a decode, a directory creation, a write.
  The world is the file tree, a map from paths to nodes, and the list of these effects in
  the order in which they completed. The trees of a file system are the maps in which the
  parent of every entry is a directory; the calls below read and write the entries they
  name, and the facts proved hold for every map. Permissions are modelled on regular
  files only.
\<close>

datatype event = Print message | Opened path | MadeDirs path | Saved path

record world =
  files :: "path \<Rightarrow> node option"
  events :: "event list"

definition print_msg :: "message \<Rightarrow> world \<Rightarrow> world" where
  "print_msg m w = w\<lparr>events := events w @ [Print m]\<rparr>"

subsection \<open>The operating-system calls\<close>

text \<open>\<^verbatim>\<open>os.path.exists(p)\<close>: true of files and of directories.\<close>

definition path_exists :: "world \<Rightarrow> path \<Rightarrow> bool" where
  "path_exists w p = (files w p \<noteq> None)"

text \<open>
  \<^verbatim>\<open>os.makedirs(p, exist_ok=True)\<close>, walking down from the directory \<open>pre\<close>: a component
  that is a directory is entered, a missing one is created, and a regular file in the way
  raises (\<^verbatim>\<open>FileExistsError\<close> at the last component, \<^verbatim>\<open>NotADirectoryError\<close> above it).
  The directories created before the raise stay.
\<close>

fun mkdirs :: "path \<Rightarrow> string list \<Rightarrow> (path \<Rightarrow> node option) \<Rightarrow> (error + unit) \<times> (path \<Rightarrow> node option)" where
  "mkdirs pre [] fs = (Inr (), fs)"
| "mkdirs pre (c # cs) fs =
    (case fs (pre @ [c]) of
       Some Dir \<Rightarrow> mkdirs (pre @ [c]) cs fs
     | Some (File wr d) \<Rightarrow> (Inl (if cs = [] then FileExistsError else NotADirectoryError), fs)
     | None \<Rightarrow> mkdirs (pre @ [c]) cs (fs(pre @ [c] \<mapsto> Dir)))"

definition makedirs :: "path \<Rightarrow> world \<Rightarrow> (error + unit) \<times> world" where
  "makedirs p w =
    (case mkdirs [] p (files w) of
       (Inl e, fs') \<Rightarrow> (Inl e, w\<lparr>files := fs'\<rparr>)
     | (Inr u, fs') \<Rightarrow> (Inr (), w\<lparr>files := fs', events := events w @ [MadeDirs p]\<rparr>))"

subsection \<open>The Pillow calls\<close>

text \<open>
  \<^verbatim>\<open>Image.open(p)\<close>: identifies the file from its content, whatever its name says.
\<close>

definition Image_open :: "path \<Rightarrow> world \<Rightarrow> (error + image) \<times> world" where
  "Image_open p w =
    (case files w p of
       None \<Rightarrow> (Inl FileNotFoundError, w)
     | Some Dir \<Rightarrow> (Inl IsADirectoryError, w)
     | Some (File wr Garbage) \<Rightarrow> (Inl UnidentifiedImageError, w)
     | Some (File wr (Decodable img)) \<Rightarrow> (Inr img, w\<lparr>events := events w @ [Opened p]\<rparr>))"

text \<open>\<^verbatim>\<open>Image.new(mode, size, color)\<close>: every pixel is the given colour.\<close>

definition Image_new :: "string \<Rightarrow> nat \<times> nat \<Rightarrow> pixel \<Rightarrow> image" where
  "Image_new m sz colour =
    \<lparr>mode = m, size_wh = sz, format = None, pixels = (\<lambda>x y. colour), intact = True\<rparr>"

text \<open>
  \<^verbatim>\<open>img.split()[-1]\<close>: the last band of the image as a single-band image. It loads the
  pixel data.
\<close>

definition last_band :: "image \<Rightarrow> error + band" where
  "last_band img =
    (if \<not> intact img then Inl TruncatedImageError
     else Inr (\<lambda>x y. case rev (pixels img x y) of [] \<Rightarrow> 0 | a # bs \<Rightarrow> a))"

text \<open>
  Pillow's 8-bit blend of \<open>in1\<close> (weight \<open>255 - mask\<close>) and \<open>in2\<close> (weight \<open>mask\<close>), the
  macro \<^verbatim>\<open>BLEND8\<close> of its paste:
  \<^verbatim>\<open>tmp = in1 * (255 - mask) + in2 * mask + 128; (((tmp >> 8) + tmp) >> 8)\<close>.
\<close>

definition blend8 :: "8 word \<Rightarrow> 8 word \<Rightarrow> 8 word \<Rightarrow> 8 word" where
  "blend8 msk in1 in2 =
    (let tmp = unat in1 * (255 - unat msk) + unat in2 * unat msk + 128
     in of_nat ((tmp div 256 + tmp) div 256))"

text \<open>
  The colour bytes an RGBA or LA pixel contributes when it is pasted into an RGB image:
  Pillow copies the first three bytes of its four-byte pixel storage, which are the red,
  green and blue bands of RGBA and three copies of the grey band of LA.
\<close>

definition rgb_bytes :: "string \<Rightarrow> pixel \<Rightarrow> pixel" where
  "rgb_bytes m p =
    (if m = ''LA'' then (case p of [] \<Rightarrow> [] | l # bs \<Rightarrow> [l, l, l]) else take 3 p)"

text \<open>
  \<^verbatim>\<open>background.paste(img)\<close> and \<^verbatim>\<open>background.paste(img, mask=m)\<close> for an image of the
  background's size at the origin. Without a mask every pixel of the region is replaced
  by the pasted pixel, whatever its alpha; with a mask each band is blended under the
  mask's value at that pixel. It loads the pixel data of the pasted image.
\<close>

definition paste :: "image \<Rightarrow> image \<Rightarrow> band option \<Rightarrow> error + image" where
  "paste background img msk =
    (if \<not> intact img then Inl TruncatedImageError
     else Inr (background\<lparr>pixels :=
       (\<lambda>x y. case msk of
          None \<Rightarrow> rgb_bytes (mode img) (pixels img x y)
        | Some m \<Rightarrow> map2 (blend8 (m x y)) (pixels background x y)
                     (rgb_bytes (mode img) (pixels img x y)))\<rparr>))"

text \<open>
  \<^verbatim>\<open>img.convert('RGB')\<close>. How Pillow maps the pixels of each mode to RGB, and for which
  modes it refuses, is the parameter \<open>cv\<close>. The result has the mode asked for and the
  size of the source.
\<close>

type_synonym converter = "image \<Rightarrow> error + raster"

definition convert :: "converter \<Rightarrow> image \<Rightarrow> string \<Rightarrow> error + image" where
  "convert cv img m =
    (if \<not> intact img then Inl TruncatedImageError
     else case cv img of
        Inl e \<Rightarrow> Inl e
      | Inr px \<Rightarrow> Inr (img\<lparr>mode := m, format := None, pixels := px\<rparr>))"

text \<open>
  \<^verbatim>\<open>img.resize(size, filter)\<close>. The resampled raster is the parameter \<open>rs\<close>, which is
  given the filter asked for; the result keeps the mode of the source and has exactly the
  size asked for.
\<close>

datatype resampling = NEAREST | BOX | BILINEAR | HAMMING | BICUBIC | LANCZOS

type_synonym resampler = "resampling \<Rightarrow> nat \<times> nat \<Rightarrow> image \<Rightarrow> error + raster"

definition resize :: "resampler \<Rightarrow> image \<Rightarrow> nat \<times> nat \<Rightarrow> resampling \<Rightarrow> error + image" where
  "resize rs img sz flt =
    (if \<not> intact img then Inl TruncatedImageError
     else case rs flt sz img of
        Inl e \<Rightarrow> Inl e
      | Inr px \<Rightarrow> Inr (img\<lparr>size_wh := sz, format := None, pixels := px\<rparr>))"

text \<open>The modes Pillow's PNG encoder writes.\<close>

definition png_modes :: "string list" where
  "png_modes = [''1'', ''L'', ''LA'', ''I'', ''I;16'', ''P'', ''RGB'', ''RGBA'']"

text \<open>
  \<^verbatim>\<open>img.save(p, 'PNG')\<close>. Pillow loads the pixel data, opens \<open>p\<close> for writing (which needs
  the parent to be a directory and \<open>p\<close> not to be one, and truncates a file that is
  there) and runs the encoder. When the encoder refuses the mode, a file that this call
  created is removed again and a file that was there before stays truncated. What is
  written decodes to the saved image, identified as PNG.
\<close>

definition save_png :: "image \<Rightarrow> path \<Rightarrow> world \<Rightarrow> (error + unit) \<times> world" where
  "save_png img p w =
    (if \<not> intact img then (Inl TruncatedImageError, w)
     else case (if butlast p = [] then Some Dir else files w (butlast p)) of
        None \<Rightarrow> (Inl FileNotFoundError, w)
      | Some (File wr d) \<Rightarrow> (Inl NotADirectoryError, w)
      | Some Dir \<Rightarrow>
         (case files w p of
            Some Dir \<Rightarrow> (Inl IsADirectoryError, w)
          | Some (File wr d) \<Rightarrow>
              if \<not> wr then (Inl PermissionError, w)
              else if mode img \<notin> set png_modes
              then (Inl (CannotWriteMode (mode img)), w\<lparr>files := (files w)(p \<mapsto> File wr Garbage)\<rparr>)
              else (Inr (), w\<lparr>files := (files w)(p \<mapsto> File wr (Decodable (img\<lparr>format := Some ''PNG''\<rparr>))),
                               events := events w @ [Saved p]\<rparr>)
          | None \<Rightarrow>
              if mode img \<notin> set png_modes then (Inl (CannotWriteMode (mode img)), w)
              else (Inr (), w\<lparr>files := (files w)(p \<mapsto> File True (Decodable (img\<lparr>format := Some ''PNG''\<rparr>))),
                               events := events w @ [Saved p]\<rparr>)))"

section \<open>\<^verbatim>\<open>fix_icon.py\<close>\<close>

definition icon_path :: path where
  "icon_path = [''ios'', ''Runner'', ''Assets.xcassets'', ''AppIcon.appiconset'',
                ''Icon-App-1024x1024@1x.png'']"

definition white :: pixel where
  "white = [255, 255, 255]"

text \<open>
  Lines 16 to 25 of \<^verbatim>\<open>fix_icon_transparency\<close>, the image that will be saved:
  \<^verbatim>\<open>
  if img.mode in ('RGBA', 'LA'):
      background = Image.new('RGB', img.size, (255, 255, 255))
      if img.mode == 'RGBA':
          background.paste(img, mask=img.split()[-1])
      else:
          background.paste(img)
      img = background
  elif img.mode != 'RGB':
      img = img.convert('RGB')
  \<close>
\<close>

definition remove_alpha :: "converter \<Rightarrow> image \<Rightarrow> error + image" where
  "remove_alpha cv img =
    (if mode img \<in> set [''RGBA'', ''LA''] then
       (let background = Image_new ''RGB'' (size_wh img) white in
        if mode img = ''RGBA'' then
          (case last_band img of
             Inl e \<Rightarrow> Inl e
           | Inr alpha \<Rightarrow> paste background img (Some alpha))
        else paste background img None)
     else if mode img \<noteq> ''RGB'' then convert cv img ''RGB''
     else Inr img)"

definition fix_icon_transparency :: "converter \<Rightarrow> world \<Rightarrow> (error + unit) \<times> world" where
  "fix_icon_transparency cv w =
    (if path_exists w icon_path then
       (case Image_open icon_path w of
          (Inl e, w1) \<Rightarrow> (Inl e, w1)
        | (Inr img, w1) \<Rightarrow>
           (case remove_alpha cv img of
              Inl e \<Rightarrow> (Inl e, w1)
            | Inr img' \<Rightarrow>
               (case save_png img' icon_path w1 of
                  (Inl e, w2) \<Rightarrow> (Inl e, w2)
                | (Inr u, w2) \<Rightarrow> (Inr (), print_msg (FixedTransparency icon_path) w2))))
     else (Inr (), print_msg (IconNotFound icon_path) w))"

section \<open>\<^verbatim>\<open>resize_logo.py\<close>\<close>

definition logo_path :: path where
  "logo_path = [''logo.png'']"

definition densities :: "(string \<times> nat) list" where
  "densities =
    [(''mipmap-mdpi'', 48), (''mipmap-hdpi'', 72), (''mipmap-xhdpi'', 96),
     (''mipmap-xxhdpi'', 144), (''mipmap-xxxhdpi'', 192)]"

text \<open>\<^verbatim>\<open>f"android/app/src/main/res/{folder}"\<close> and \<^verbatim>\<open>f"{folder_path}/ic_launcher.png"\<close>.\<close>

definition folder_path :: "string \<Rightarrow> path" where
  "folder_path folder = [''android'', ''app'', ''src'', ''main'', ''res'', folder]"

definition output_path :: "string \<Rightarrow> path" where
  "output_path folder = folder_path folder @ [''ic_launcher.png'']"

text \<open>The body of the \<^verbatim>\<open>for\<close> loop (lines 33 to 44) for one \<open>(folder, size)\<close>
  of the list; the size is \<open>sz\<close> here.\<close>

definition resize_one :: "resampler \<Rightarrow> image \<Rightarrow> string \<times> nat \<Rightarrow> world \<Rightarrow> (error + unit) \<times> world" where
  "resize_one rs img d w =
    (case d of (folder, sz) \<Rightarrow>
       (case makedirs (folder_path folder) w of
          (Inl e, w1) \<Rightarrow> (Inl e, w1)
        | (Inr u, w1) \<Rightarrow>
           (case resize rs img (sz, sz) LANCZOS of
              Inl e \<Rightarrow> (Inl e, w1)
            | Inr resized \<Rightarrow>
               (case save_png resized (output_path folder) w1 of
                  (Inl e, w2) \<Rightarrow> (Inl e, w2)
                | (Inr u, w2) \<Rightarrow> (Inr (), print_msg (CreatedIcon folder sz) w2)))))"

text \<open>The \<^verbatim>\<open>for\<close> loop: the targets in list order, stopping at the first raise.\<close>

fun resize_each :: "resampler \<Rightarrow> image \<Rightarrow> (string \<times> nat) list \<Rightarrow> world \<Rightarrow> (error + unit) \<times> world" where
  "resize_each rs img [] w = (Inr (), w)"
| "resize_each rs img (d # ds) w =
    (case resize_one rs img d w of
       (Inl e, w1) \<Rightarrow> (Inl e, w1)
     | (Inr u, w1) \<Rightarrow> resize_each rs img ds w1)"

text \<open>The body of the \<^verbatim>\<open>try\<close> block (lines 28 to 49).\<close>

definition resize_body :: "resampler \<Rightarrow> world \<Rightarrow> (error + bool) \<times> world" where
  "resize_body rs w =
    (case Image_open logo_path w of
       (Inl e, w1) \<Rightarrow> (Inl e, w1)
     | (Inr img, w1) \<Rightarrow>
        (case resize_each rs img densities (print_msg (OriginalLogoSize (size_wh img)) w1) of
           (Inl e, w2) \<Rightarrow> (Inl e, w2)
         | (Inr u, w2) \<Rightarrow>
            (Inr True,
             print_msg WillDisplayLogo (print_msg AllIconsCreated (print_msg ResizingComplete w2)))))"

text \<open>
  \<^verbatim>\<open>resize_logo\<close>: the banner, the existence check, and the \<^verbatim>\<open>try\<close> block under
  \<^verbatim>\<open>except Exception as e\<close>, which prints the error and returns \<^verbatim>\<open>False\<close>.
\<close>

definition resize_logo :: "resampler \<Rightarrow> world \<Rightarrow> (error + bool) \<times> world" where
  "resize_logo rs w =
    (let w0 = print_msg ResizingBanner w in
     if \<not> path_exists w0 logo_path then (Inr False, print_msg LogoNotFound w0)
     else case resize_body rs w0 of
        (Inl e, w1) \<Rightarrow> (Inr False, print_msg (ErrorResizingLogo e) w1)
      | (Inr b, w1) \<Rightarrow> (Inr b, w1))"

section \<open>What the claims about \<^verbatim>\<open>resize_logo.py\<close> speak of\<close>

text \<open>A path that holds a regular file.\<close>

fun is_file :: "node option \<Rightarrow> bool" where
  "is_file (Some (File wr d)) = True"
| "is_file (Some Dir) = False"
| "is_file None = False"

text \<open>A directory's path and those of its ancestors below the working directory.\<close>

definition dir_chain :: "path \<Rightarrow> path list" where
  "dir_chain p = tl (prefixes p)"

text \<open>
  The file tree lets the target \<open>folder\<close> be produced: no regular file stands where one
  of its directories has to be, and its \<^verbatim>\<open>ic_launcher.png\<close> is absent or a writable file.
\<close>

definition can_hold :: "(path \<Rightarrow> node option) \<Rightarrow> string \<Rightarrow> bool" where
  "can_hold fs folder =
    (list_all (\<lambda>q. \<not> is_file (fs q)) (dir_chain (folder_path folder))
     \<and> (case fs (output_path folder) of
          None \<Rightarrow> True
        | Some Dir \<Rightarrow> False
        | Some (File wr d) \<Rightarrow> wr))"

text \<open>
  A source image the script can process: its pixel data loads, Pillow resizes it to each
  of the target sizes, and the PNG encoder writes its mode.
\<close>

definition valid_source :: "resampler \<Rightarrow> image \<Rightarrow> bool" where
  "valid_source rs img =
    (intact img \<and> mode img \<in> set png_modes
     \<and> list_all (\<lambda>d. case rs LANCZOS (snd d, snd d) img of Inl e \<Rightarrow> False | Inr px \<Rightarrow> True)
          densities)"

text \<open>
  The target \<open>(folder, sz)\<close> is in place: its directories exist and its
  \<^verbatim>\<open>ic_launcher.png\<close> is a file holding the PNG encoding of the source resized to \<open>sz\<close> by
  \<open>sz\<close> with the Lanczos filter.
\<close>

definition installed :: "resampler \<Rightarrow> image \<Rightarrow> (path \<Rightarrow> node option) \<Rightarrow> string \<times> nat \<Rightarrow> bool" where
  "installed rs img fs d =
    (list_all (\<lambda>q. fs q = Some Dir) (dir_chain (folder_path (fst d)))
     \<and> (case resize rs img (snd d, snd d) LANCZOS of
          Inl e \<Rightarrow> False
        | Inr resized \<Rightarrow>
            fs (output_path (fst d))
              = Some (File True (Decodable (resized\<lparr>format := Some ''PNG''\<rparr>)))))"

text \<open>The effects of one completed target, and the effects of a run that are not prints.\<close>

definition target_events :: "string \<times> nat \<Rightarrow> event list" where
  "target_events d =
    [MadeDirs (folder_path (fst d)), Saved (output_path (fst d)),
     Print (CreatedIcon (fst d) (snd d))]"




text \<open>
  What decoding the file at a path gives: the pixel at a position, and the format the
  file is identified as.
\<close>

definition pixel_at :: "world \<Rightarrow> path \<Rightarrow> nat \<Rightarrow> nat \<Rightarrow> pixel option" where
  "pixel_at w p x y =
    (case files w p of
       Some (File wr (Decodable img)) \<Rightarrow> Some (pixels img x y)
     | Some (File wr Garbage) \<Rightarrow> None
     | Some Dir \<Rightarrow> None
     | None \<Rightarrow> None)"


section \<open>Sample inputs\<close>

text \<open>
  Concrete file trees, images and library parameters on which the theorems below are
  instantiated. A tree is given by the list of its entries.
\<close>

definition tree :: "(path \<times> node) list \<Rightarrow> path \<Rightarrow> node option" where
  "tree entries = map_of entries"

text \<open>The icon's directories with a file of the given permission and content in place.\<close>

definition icon_world :: "bool \<Rightarrow> content \<Rightarrow> world" where
  "icon_world wr c =
    \<lparr>files = tree [([''ios''], Dir), ([''ios'', ''Runner''], Dir),
                    ([''ios'', ''Runner'', ''Assets.xcassets''], Dir),
                    ([''ios'', ''Runner'', ''Assets.xcassets'', ''AppIcon.appiconset''], Dir),
                    (icon_path, File wr c)],
     events = []\<rparr>"

text \<open>A one-pixel image of the given mode, format and pixel value.\<close>

definition dot :: "string \<Rightarrow> string option \<Rightarrow> pixel \<Rightarrow> image" where
  "dot m f p = \<lparr>mode = m, size_wh = (1, 1), format = f, pixels = (\<lambda>x y. p), intact = True\<rparr>"

text \<open>A converter that refuses every mode, and a resampler that fills with one grey level.\<close>

definition no_convert :: converter where
  "no_convert img = Inl (LibraryError ''conversion not supported'')"

definition flat_resampler :: resampler where
  "flat_resampler flt sz img = Inr (\<lambda>x y. [128])"

text \<open>A working directory that holds nothing but the logo.\<close>

definition logo_world :: "content \<Rightarrow> world" where
  "logo_world c = \<lparr>files = tree [(logo_path, File True c)], events = []\<rparr>"

text \<open>An empty working directory.\<close>

definition empty_world :: world where
  "empty_world = \<lparr>files = tree [], events = []\<rparr>"

text \<open>
  A working directory with the logo and the \<^verbatim>\<open>res\<close> directory, in which a regular file
  stands where the directory \<^verbatim>\<open>mipmap-hdpi\<close> has to be.
\<close>

definition blocked_world :: "content \<Rightarrow> world" where
  "blocked_world c =
    \<lparr>files = tree [(logo_path, File True c), ([''android''], Dir),
                    ([''android'', ''app''], Dir), ([''android'', ''app'', ''src''], Dir),
                    ([''android'', ''app'', ''src'', ''main''], Dir),
                    ([''android'', ''app'', ''src'', ''main'', ''res''], Dir),
                    (folder_path ''mipmap-hdpi'', File True Garbage)],
     events = []\<rparr>"

section \<open>Facts about the library calls\<close>

lemma div255_round:
  fixes n :: nat
  assumes "n < 256"
  shows "((n * 255 + 128) div 256 + (n * 255 + 128)) div 256 = n"
proof (cases "n \<le> 128")
  case True
  have q: "(n * 255 + 128) div 256 = n"
    by (rule div_nat_eqI) (use True in simp_all)
  have "(n + (n * 255 + 128)) div 256 = n"
    by (rule div_nat_eqI) simp_all
  with q show ?thesis by simp
next
  case False
  have q: "(n * 255 + 128) div 256 = n - 1"
    by (rule div_nat_eqI) (use False assms in simp_all)
  have "(n - 1 + (n * 255 + 128)) div 256 = n"
    by (rule div_nat_eqI) (use False in simp_all)
  with q show ?thesis by simp
qed

lemma blend8_transparent: "blend8 0 c d = c"
proof -
  have "unat c < 256" using unsigned_less [of c, where ?'a = nat] by simp
  then show ?thesis using div255_round [of "unat c"] by (simp add: blend8_def Let_def)
qed

lemma blend8_opaque: "blend8 255 c d = d"
proof -
  have "unat d < 256" using unsigned_less [of d, where ?'a = nat] by simp
  then show ?thesis using div255_round [of "unat d"] by (simp add: blend8_def Let_def)
qed

lemma paste_Inr:
  "paste bg img m = Inr out \<Longrightarrow> mode out = mode bg \<and> size_wh out = size_wh bg \<and> intact out = intact bg"
  by (auto simp: paste_def split: if_splits)

lemma convert_Inr:
  "convert cv img m = Inr out \<Longrightarrow> mode out = m \<and> size_wh out = size_wh img \<and> intact out"
  by (auto simp: convert_def split: if_splits sum.splits)

lemma remove_alpha_mode:
  assumes "remove_alpha cv img = Inr out"
  shows "mode out = ''RGB'' \<and> size_wh out = size_wh img"
proof (cases "mode img \<in> set [''RGBA'', ''LA'']")
  case True
  then obtain m where "paste (Image_new ''RGB'' (size_wh img) white) img m = Inr out"
    using assms by (auto simp: remove_alpha_def Let_def split: if_splits sum.splits)
  from paste_Inr [OF this] show ?thesis by (simp add: Image_new_def)
next
  case False
  show ?thesis
  proof (cases "mode img = ''RGB''")
    case True
    with False assms show ?thesis by (simp add: remove_alpha_def)
  next
    case F: False
    with False assms have "convert cv img ''RGB'' = Inr out" by (simp add: remove_alpha_def)
    from convert_Inr [OF this] show ?thesis by simp
  qed
qed

lemma remove_alpha_intact:
  assumes "intact img" and "remove_alpha cv img = Inr out"
  shows "intact out"
proof (cases "mode img \<in> set [''RGBA'', ''LA'']")
  case True
  then obtain m where "paste (Image_new ''RGB'' (size_wh img) white) img m = Inr out"
    using assms by (auto simp: remove_alpha_def Let_def split: if_splits sum.splits)
  from paste_Inr [OF this] show ?thesis by (simp add: Image_new_def)
next
  case False
  show ?thesis
  proof (cases "mode img = ''RGB''")
    case True
    with False assms show ?thesis by (simp add: remove_alpha_def)
  next
    case F: False
    with False assms have "convert cv img ''RGB'' = Inr out" by (simp add: remove_alpha_def)
    from convert_Inr [OF this] show ?thesis by simp
  qed
qed

lemma remove_alpha_RGBA:
  assumes "mode img = ''RGBA''" and "intact img"
  shows "remove_alpha cv img = Inr (Image_new ''RGB'' (size_wh img) white\<lparr>pixels :=
     (\<lambda>x y. map2 (blend8 (case rev (pixels img x y) of [] \<Rightarrow> 0 | a # bs \<Rightarrow> a)) white
        (take 3 (pixels img x y)))\<rparr>)"
  using assms
  by (simp add: remove_alpha_def Let_def paste_def last_band_def Image_new_def rgb_bytes_def)

lemma remove_alpha_LA:
  assumes "mode img = ''LA''" and "intact img"
  shows "remove_alpha cv img = Inr (Image_new ''RGB'' (size_wh img) white\<lparr>pixels :=
     (\<lambda>x y. case pixels img x y of [] \<Rightarrow> [] | l # bs \<Rightarrow> [l, l, l])\<rparr>)"
  using assms
  by (simp add: remove_alpha_def Let_def paste_def Image_new_def rgb_bytes_def)

lemma Image_open_decodable:
  "files w p = Some (File wr (Decodable img)) \<Longrightarrow>
   Image_open p w = (Inr img, w\<lparr>events := events w @ [Opened p]\<rparr>)"
  by (simp add: Image_open_def)

lemma save_png_overwrite:
  "intact img \<Longrightarrow> mode img \<in> set png_modes \<Longrightarrow> butlast p \<noteq> [] \<Longrightarrow>
   files w (butlast p) = Some Dir \<Longrightarrow> files w p = Some (File True d) \<Longrightarrow>
   save_png img p w =
     (Inr (), w\<lparr>files := (files w)(p \<mapsto> File True (Decodable (img\<lparr>format := Some ''PNG''\<rparr>))),
               events := events w @ [Saved p]\<rparr>)"
  by (simp add: save_png_def)

lemma save_png_Inr:
  assumes "save_png img p w = (Inr u, w')" and "files w p = Some (File wr d)"
  shows "w' = w\<lparr>files := (files w)(p \<mapsto> File wr (Decodable (img\<lparr>format := Some ''PNG''\<rparr>))),
               events := events w @ [Saved p]\<rparr>"
  using assms
  by (simp add: save_png_def split: if_splits option.splits node.splits)

lemma RGB_png: "''RGB'' \<in> set png_modes"
  by (simp add: png_modes_def)

lemma fix_icon_completes:
  assumes f: "files w icon_path = Some (File True (Decodable img))"
    and d: "files w (butlast icon_path) = Some Dir"
    and i: "intact img"
    and r: "remove_alpha cv img = Inr out"
  shows "fix_icon_transparency cv w =
    (Inr (), w\<lparr>files := (files w)(icon_path \<mapsto> File True (Decodable (out\<lparr>format := Some ''PNG''\<rparr>))),
               events := events w @ [Opened icon_path, Saved icon_path,
                                     Print (FixedTransparency icon_path)]\<rparr>)"
proof -
  have m: "mode out \<in> set png_modes" using remove_alpha_mode [OF r] RGB_png by simp
  have io: "intact out" using remove_alpha_intact [OF i r] .
  have ne: "butlast icon_path \<noteq> []" by (simp add: icon_path_def)
  let ?w1 = "w\<lparr>events := events w @ [Opened icon_path]\<rparr>"
  have e: "path_exists w icon_path" using f by (simp add: path_exists_def)
  have o: "Image_open icon_path w = (Inr img, ?w1)" using f by (rule Image_open_decodable)
  have s: "save_png out icon_path ?w1 =
     (Inr (), ?w1\<lparr>files := (files ?w1)(icon_path \<mapsto> File True (Decodable (out\<lparr>format := Some ''PNG''\<rparr>))),
               events := events ?w1 @ [Saved icon_path]\<rparr>)"
    by (rule save_png_overwrite [OF io m ne]) (simp_all add: d f)
  show ?thesis
    unfolding fix_icon_transparency_def
    by (simp only: e o s r if_True prod.case sum.case) (simp add: print_msg_def)
qed

lemma fix_icon_returns:
  assumes f: "files w icon_path = Some (File wr (Decodable img))"
    and r: "fix_icon_transparency cv w = (Inr u, w')"
  shows "\<exists>out. remove_alpha cv img = Inr out \<and>
     w' = w\<lparr>files := (files w)(icon_path \<mapsto> File wr (Decodable (out\<lparr>format := Some ''PNG''\<rparr>))),
            events := events w @ [Opened icon_path, Saved icon_path,
                                  Print (FixedTransparency icon_path)]\<rparr>"
proof -
  let ?w1 = "w\<lparr>events := events w @ [Opened icon_path]\<rparr>"
  have e: "path_exists w icon_path" using f by (simp add: path_exists_def)
  have o: "Image_open icon_path w = (Inr img, ?w1)" using f by (rule Image_open_decodable)
  from r obtain out where ra: "remove_alpha cv img = Inr out"
    unfolding fix_icon_transparency_def
    by (simp only: e o if_True prod.case sum.case) (cases "remove_alpha cv img", simp_all)
  from r obtain w2 where s: "save_png out icon_path ?w1 = (Inr (), w2)"
    and w': "w' = print_msg (FixedTransparency icon_path) w2"
    unfolding fix_icon_transparency_def
    by (simp only: e o ra if_True prod.case sum.case)
       (cases "save_png out icon_path ?w1", rename_tac a b, case_tac a, simp_all)
  have "files ?w1 icon_path = Some (File wr (Decodable img))" using f by simp
  from save_png_Inr [OF s this] w' ra show ?thesis by (simp add: print_msg_def)
qed

lemma icon_world_file: "files (icon_world wr c) icon_path = Some (File wr c)"
  by (simp add: icon_world_def tree_def icon_path_def)

lemma icon_world_parent: "files (icon_world wr c) (butlast icon_path) = Some Dir"
  by (simp add: icon_world_def tree_def icon_path_def)

lemma dot_simps:
  "mode (dot m f p) = m" "size_wh (dot m f p) = (1, 1)" "format (dot m f p) = f"
  "pixels (dot m f p) x y = p" "intact (dot m f p)"
  by (simp_all add: dot_def)

section \<open>The claims about \<^verbatim>\<open>fix_icon.py\<close>\<close>

text \<open>
  What a completed run writes for an icon of an alpha mode. In the RGBA branch every band
  of the output pixel is the blend of white and the input band under the pixel's alpha;
  in the LA branch the output pixel is the input's grey level in all three bands.
\<close>

lemma written_pixels_by_mode:
  assumes "files w icon_path = Some (File True (Decodable img))"
    and "files w (butlast icon_path) = Some Dir"
    and "intact img"
    and "mode img \<in> set [''RGBA'', ''LA'']"
  shows "\<exists>out. fst (fix_icon_transparency cv w) = Inr ()
      \<and> files (snd (fix_icon_transparency cv w)) icon_path = Some (File True (Decodable out))
      \<and> mode out = ''RGB'' \<and> size_wh out = size_wh img
      \<and> (mode img = ''RGBA'' \<longrightarrow>
           (\<forall>x y r g b a. pixels img x y = [r, g, b, a] \<longrightarrow>
              pixels out x y = [blend8 a 255 r, blend8 a 255 g, blend8 a 255 b]
              \<and> (a = 0 \<longrightarrow> pixels out x y = white)
              \<and> (a = 255 \<longrightarrow> pixels out x y = [r, g, b])))
      \<and> (mode img = ''LA'' \<longrightarrow>
           (\<forall>x y l a. pixels img x y = [l, a] \<longrightarrow> pixels out x y = [l, l, l]))"
proof (cases "mode img = ''RGBA''")
  case True
  let ?out = "Image_new ''RGB'' (size_wh img) white\<lparr>pixels :=
     (\<lambda>x y. map2 (blend8 (case rev (pixels img x y) of [] \<Rightarrow> 0 | a # bs \<Rightarrow> a)) white
        (take 3 (pixels img x y)))\<rparr>"
  have r: "remove_alpha cv img = Inr ?out" using True assms(3) by (rule remove_alpha_RGBA)
  have px: "pixels (?out\<lparr>format := Some ''PNG''\<rparr>) x y = [blend8 a 255 r, blend8 a 255 g, blend8 a 255 b]"
    if "pixels img x y = [r, g, b, a]" for x y r g b a
    using that by (simp add: white_def)
  show ?thesis
    apply (rule exI [of _ "?out\<lparr>format := Some ''PNG''\<rparr>"])
    apply (simp only: fix_icon_completes [OF assms(1,2,3) r] fst_conv snd_conv)
    using True px
    apply (simp add: Image_new_def blend8_transparent blend8_opaque white_def)
    done
next
  case False
  with assms(4) have la: "mode img = ''LA''" by simp
  let ?out = "Image_new ''RGB'' (size_wh img) white\<lparr>pixels :=
     (\<lambda>x y. case pixels img x y of [] \<Rightarrow> [] | l # bs \<Rightarrow> [l, l, l])\<rparr>"
  have r: "remove_alpha cv img = Inr ?out" using la assms(3) by (rule remove_alpha_LA)
  show ?thesis
    apply (rule exI [of _ "?out\<lparr>format := Some ''PNG''\<rparr>"])
    apply (simp only: fix_icon_completes [OF assms(1,2,3) r] fst_conv snd_conv)
    using la
    apply (simp add: Image_new_def)
    done
qed

text \<open>
  Claim C1: an image of either alpha mode, RGBA or LA, is composited onto a white canvas
  of its size under its own alpha channel, so that a fully transparent pixel comes out
  white and a fully opaque one keeps its colour. The script meets this for RGBA and falls
  short of it for LA: it builds the white canvas for both modes, but hands the alpha
  channel to \<^verbatim>\<open>paste\<close> in the RGBA branch only, and the unmasked paste of the LA branch
  covers the canvas. Evaluated on a one-pixel icon whose pixel is black and fully
  transparent: the LA icon is written back black, where the RGBA icon of the same pixel
  is written back white.
\<close>

theorem transparent_LA_pixel_not_white:
  "pixels (dot ''LA'' (Some ''PNG'') [0, 0]) 0 0 = [0, 0]
   \<and> fst (fix_icon_transparency no_convert
            (icon_world True (Decodable (dot ''LA'' (Some ''PNG'') [0, 0])))) = Inr ()
   \<and> pixel_at (snd (fix_icon_transparency no_convert
            (icon_world True (Decodable (dot ''LA'' (Some ''PNG'') [0, 0])))))
         icon_path 0 0 = Some [0, 0, 0]
   \<and> pixel_at (snd (fix_icon_transparency no_convert
            (icon_world True (Decodable (dot ''LA'' (Some ''PNG'') [0, 0])))))
         icon_path 0 0 \<noteq> Some white
   \<and> pixels (dot ''RGBA'' (Some ''PNG'') [0, 0, 0, 0]) 0 0 = [0, 0, 0, 0]
   \<and> pixel_at (snd (fix_icon_transparency no_convert
            (icon_world True (Decodable (dot ''RGBA'' (Some ''PNG'') [0, 0, 0, 0])))))
         icon_path 0 0 = Some white"
proof -
  let ?img = "dot ''LA'' (Some ''PNG'') [0, 0]"
  let ?w = "icon_world True (Decodable ?img)"
  have h1: "files ?w icon_path = Some (File True (Decodable ?img))" by (rule icon_world_file)
  have h2: "files ?w (butlast icon_path) = Some Dir" by (rule icon_world_parent)
  have h3: "intact ?img" by (simp add: dot_simps)
  have h4: "mode ?img = ''LA''" by (simp add: dot_simps)
  note r = remove_alpha_LA [OF h4 h3, of no_convert]
  have la: "pixels ?img 0 0 = [0, 0]
   \<and> fst (fix_icon_transparency no_convert ?w) = Inr ()
   \<and> pixel_at (snd (fix_icon_transparency no_convert ?w)) icon_path 0 0 = Some [0, 0, 0]
   \<and> pixel_at (snd (fix_icon_transparency no_convert ?w)) icon_path 0 0 \<noteq> Some white"
    by (simp add: fix_icon_completes [OF h1 h2 h3 r] dot_simps white_def pixel_at_def)
  let ?im2 = "dot ''RGBA'' (Some ''PNG'') [0, 0, 0, 0]"
  let ?w2 = "icon_world True (Decodable ?im2)"
  have g1: "files ?w2 icon_path = Some (File True (Decodable ?im2))" by (rule icon_world_file)
  have g2: "files ?w2 (butlast icon_path) = Some Dir" by (rule icon_world_parent)
  have g3: "intact ?im2" by (simp add: dot_simps)
  have g4: "mode ?im2 = ''RGBA''" by (simp add: dot_simps)
  note r2 = remove_alpha_RGBA [OF g4 g3, of no_convert]
  have rgba: "pixels ?im2 0 0 = [0, 0, 0, 0]
   \<and> pixel_at (snd (fix_icon_transparency no_convert ?w2)) icon_path 0 0 = Some white"
    by (simp add: fix_icon_completes [OF g1 g2 g3 r2] dot_simps white_def pixel_at_def
        blend8_transparent)
  from la rgba show ?thesis by blast
qed

text \<open>
  Claim C4. When the input is missing, each script stops without raising and leaves the
  file tree as it was: \<^verbatim>\<open>fix_icon_transparency\<close> prints the not-found line and nothing
  else happens (no decode, no write), and \<^verbatim>\<open>resize_logo\<close> prints its banner and the
  not-found line and returns \<^verbatim>\<open>False\<close> (no directory, no file).
\<close>

theorem missing_input_is_reported:
  "(\<not> path_exists w icon_path \<longrightarrow>
      fix_icon_transparency cv w =
        (Inr (), w\<lparr>events := events w @ [Print (IconNotFound icon_path)]\<rparr>))
   \<and> (\<not> path_exists w logo_path \<longrightarrow>
      resize_logo rs w =
        (Inr False, w\<lparr>events := events w @ [Print ResizingBanner, Print LogoNotFound]\<rparr>))"
  by (simp add: fix_icon_transparency_def resize_logo_def Let_def print_msg_def path_exists_def)

theorem missing_input_is_reported_witness:
  "\<not> path_exists empty_world icon_path \<and> \<not> path_exists empty_world logo_path
   \<and> fix_icon_transparency no_convert empty_world =
        (Inr (), empty_world\<lparr>events := [Print (IconNotFound icon_path)]\<rparr>)
   \<and> resize_logo flat_resampler empty_world =
        (Inr False, empty_world\<lparr>events := [Print ResizingBanner, Print LogoNotFound]\<rparr>)
   \<and> files (snd (fix_icon_transparency no_convert empty_world)) = files empty_world
   \<and> files (snd (resize_logo flat_resampler empty_world)) = files empty_world"
proof -
  have a: "\<not> path_exists empty_world icon_path" "\<not> path_exists empty_world logo_path"
    by (simp_all add: path_exists_def empty_world_def tree_def)
  have e: "events empty_world = []" by (simp add: empty_world_def)
  from missing_input_is_reported [of empty_world no_convert flat_resampler] a e
  show ?thesis by simp
qed

text \<open>
  Claim C5. When the icon has an alpha mode and \<^verbatim>\<open>fix_icon_transparency\<close> runs to
  completion, the file it leaves at the icon's path decodes to an RGB image, a mode
  without alpha, with the pixel dimensions of the input.
\<close>

theorem stripped_icon_has_no_alpha:
  assumes "files w icon_path = Some (File wr (Decodable img))"
    and "mode img \<in> set [''RGBA'', ''LA'']"
    and "fix_icon_transparency cv w = (Inr u, w')"
  shows "\<exists>out. files w' icon_path = Some (File wr (Decodable out))
      \<and> mode out = ''RGB'' \<and> mode out \<notin> set [''RGBA'', ''LA'']
      \<and> size_wh out = size_wh img"
proof -
  from fix_icon_returns [OF assms(1,3)] obtain out where
    r: "remove_alpha cv img = Inr out" and
    w': "w' = w\<lparr>files := (files w)(icon_path \<mapsto> File wr (Decodable (out\<lparr>format := Some ''PNG''\<rparr>))),
            events := events w @ [Opened icon_path, Saved icon_path,
                                  Print (FixedTransparency icon_path)]\<rparr>"
    by blast
  from remove_alpha_mode [OF r] w' show ?thesis by simp
qed

theorem stripped_icon_has_no_alpha_witness:
  "\<exists>w' out. fix_icon_transparency no_convert
        (icon_world True (Decodable (dot ''LA'' (Some ''PNG'') [7, 9]))) = (Inr (), w')
     \<and> files w' icon_path = Some (File True (Decodable out))
     \<and> mode out = ''RGB'' \<and> size_wh out = (1, 1)"
proof -
  let ?img = "dot ''LA'' (Some ''PNG'') [7, 9]"
  let ?w = "icon_world True (Decodable ?img)"
  have h1: "files ?w icon_path = Some (File True (Decodable ?img))" by (rule icon_world_file)
  have h2: "files ?w (butlast icon_path) = Some Dir" by (rule icon_world_parent)
  have h3: "intact ?img" by (simp add: dot_simps)
  have h4: "mode ?img \<in> set [''RGBA'', ''LA'']" by (simp add: dot_simps)
  have h5: "mode ?img = ''LA''" by (simp add: dot_simps)
  note c = fix_icon_completes [OF h1 h2 h3 remove_alpha_LA [OF h5 h3, of no_convert]]
  from stripped_icon_has_no_alpha [OF h1 h4 c] c show ?thesis by (simp add: dot_simps)
qed




text \<open>
  Claim C7. \<^verbatim>\<open>fix_icon_transparency\<close> has no handler: once the existence check has
  passed, an exception raised by the decode, by the transformation or by the write is the
  outcome of the whole call, and the world is the one the raise left (no line is
  printed).
\<close>

theorem stripper_errors_propagate:
  assumes "path_exists w icon_path"
  shows "(Image_open icon_path w = (Inl e, w1) \<longrightarrow> fix_icon_transparency cv w = (Inl e, w1))
     \<and> (Image_open icon_path w = (Inr img, w1) \<and> remove_alpha cv img = Inl e
          \<longrightarrow> fix_icon_transparency cv w = (Inl e, w1))
     \<and> (Image_open icon_path w = (Inr img, w1) \<and> remove_alpha cv img = Inr img'
          \<and> save_png img' icon_path w1 = (Inl e, w2)
          \<longrightarrow> fix_icon_transparency cv w = (Inl e, w2))"
  using assms by (simp add: fix_icon_transparency_def)

theorem stripper_errors_propagate_witness:
  "path_exists (icon_world True Garbage) icon_path
   \<and> fix_icon_transparency no_convert (icon_world True Garbage)
       = (Inl UnidentifiedImageError, icon_world True Garbage)
   \<and> path_exists (icon_world True (Decodable (dot ''CMYK'' (Some ''JPEG'') [1, 2, 3, 4]))) icon_path
   \<and> fix_icon_transparency no_convert
         (icon_world True (Decodable (dot ''CMYK'' (Some ''JPEG'') [1, 2, 3, 4])))
       = (Inl (LibraryError ''conversion not supported''),
          icon_world True (Decodable (dot ''CMYK'' (Some ''JPEG'') [1, 2, 3, 4]))
            \<lparr>events := [Opened icon_path]\<rparr>)
   \<and> path_exists (icon_world False (Decodable (dot ''RGB'' (Some ''PNG'') [1, 2, 3]))) icon_path
   \<and> fix_icon_transparency no_convert
         (icon_world False (Decodable (dot ''RGB'' (Some ''PNG'') [1, 2, 3])))
       = (Inl PermissionError,
          icon_world False (Decodable (dot ''RGB'' (Some ''PNG'') [1, 2, 3]))
            \<lparr>events := [Opened icon_path]\<rparr>)"
proof -
  let ?g = "icon_world True Garbage"
  let ?c = "dot ''CMYK'' (Some ''JPEG'') [1, 2, 3, 4]"
  let ?wc = "icon_world True (Decodable ?c)"
  let ?r = "dot ''RGB'' (Some ''PNG'') [1, 2, 3]"
  let ?wr = "icon_world False (Decodable ?r)"
  have ev: "events (icon_world b c) = []" for b c by (simp add: icon_world_def)
  have e1: "path_exists ?g icon_path" by (simp add: path_exists_def icon_world_file)
  have o1: "Image_open icon_path ?g = (Inl UnidentifiedImageError, ?g)"
    by (simp add: Image_open_def icon_world_file)
  have e2: "path_exists ?wc icon_path" by (simp add: path_exists_def icon_world_file)
  have o2: "Image_open icon_path ?wc = (Inr ?c, ?wc\<lparr>events := [Opened icon_path]\<rparr>)"
    by (simp add: Image_open_def icon_world_file ev)
  have r2: "remove_alpha no_convert ?c = Inl (LibraryError ''conversion not supported'')"
    by (simp add: remove_alpha_def convert_def no_convert_def dot_simps)
  have e3: "path_exists ?wr icon_path" by (simp add: path_exists_def icon_world_file)
  have o3: "Image_open icon_path ?wr = (Inr ?r, ?wr\<lparr>events := [Opened icon_path]\<rparr>)"
    by (simp add: Image_open_def icon_world_file ev)
  have r3: "remove_alpha no_convert ?r = Inr ?r"
    by (simp add: remove_alpha_def dot_simps)
  have s3: "save_png ?r icon_path (?wr\<lparr>events := [Opened icon_path]\<rparr>)
      = (Inl PermissionError, ?wr\<lparr>events := [Opened icon_path]\<rparr>)"
    using icon_world_file [of False "Decodable ?r"] icon_world_parent [of False "Decodable ?r"]
    by (simp add: save_png_def dot_simps)
  from stripper_errors_propagate [OF e1, where e = UnidentifiedImageError and ?w1.0 = ?g
      and cv = no_convert] o1
  have a: "fix_icon_transparency no_convert ?g = (Inl UnidentifiedImageError, ?g)" by simp
  from stripper_errors_propagate [OF e2, where img = ?c
      and ?w1.0 = "?wc\<lparr>events := [Opened icon_path]\<rparr>" and cv = no_convert
      and e = "LibraryError ''conversion not supported''"] o2 r2
  have b: "fix_icon_transparency no_convert ?wc
       = (Inl (LibraryError ''conversion not supported''), ?wc\<lparr>events := [Opened icon_path]\<rparr>)"
    by simp
  from stripper_errors_propagate [OF e3, where img = ?r
      and ?w1.0 = "?wr\<lparr>events := [Opened icon_path]\<rparr>" and cv = no_convert
      and img' = ?r and e = PermissionError
      and ?w2.0 = "?wr\<lparr>events := [Opened icon_path]\<rparr>"] o3 r3 s3
  have c: "fix_icon_transparency no_convert ?wr
       = (Inl PermissionError, ?wr\<lparr>events := [Opened icon_path]\<rparr>)"
    by simp
  from e1 e2 e3 a b c show ?thesis by simp
qed

section \<open>Facts about directory creation\<close>

lemma dir_chain_set: "set (dir_chain p) = {q. q \<noteq> [] \<and> prefix q p}"
proof (cases p)
  case Nil
  then show ?thesis by (auto simp: dir_chain_def)
next
  case (Cons x xs)
  have "set (map ((#) x) (prefixes xs)) = {q. q \<noteq> [] \<and> prefix q (x # xs)}"
  proof (intro set_eqI iffI)
    fix q assume "q \<in> set (map ((#) x) (prefixes xs))"
    then obtain r where "q = x # r" "prefix r xs" by auto
    then show "q \<in> {q. q \<noteq> [] \<and> prefix q (x # xs)}" by simp
  next
    fix q assume "q \<in> {q. q \<noteq> [] \<and> prefix q (x # xs)}"
    then obtain r where "q = x # r" "prefix r xs" by (cases q) auto
    then show "q \<in> set (map ((#) x) (prefixes xs))" by simp
  qed
  with Cons show ?thesis by (simp add: dir_chain_def)
qed

lemma prefix_Cons_nonempty:
  "q \<noteq> [] \<Longrightarrow> prefix q (c # cs) \<Longrightarrow> \<exists>q'. q = c # q' \<and> prefix q' cs"
  by (cases q) simp_all

lemma mkdirs_Cons_None:
  "fs (pre @ [c]) = None \<Longrightarrow>
   mkdirs pre (c # cs) fs = mkdirs (pre @ [c]) cs (fs(pre @ [c] \<mapsto> Dir))"
  by simp

lemma mkdirs_Cons_Dir:
  "fs (pre @ [c]) = Some Dir \<Longrightarrow> mkdirs pre (c # cs) fs = mkdirs (pre @ [c]) cs fs"
  by simp

lemma mkdirs_Cons_File:
  "fs (pre @ [c]) = Some (File wr d) \<Longrightarrow>
   mkdirs pre (c # cs) fs = (Inl (if cs = [] then FileExistsError else NotADirectoryError), fs)"
  by simp

lemma mkdirs_keeps: "fs p = Some n \<Longrightarrow> snd (mkdirs pre cs fs) p = Some n"
proof (induction cs arbitrary: pre fs)
  case Nil
  then show ?case by simp
next
  case (Cons c cs)
  show ?case
  proof (cases "fs (pre @ [c])")
    case None
    with Cons.prems have "p \<noteq> pre @ [c]" by auto
    then have "(fs(pre @ [c] \<mapsto> Dir)) p = Some n" using Cons.prems by simp
    then have "snd (mkdirs (pre @ [c]) cs (fs(pre @ [c] \<mapsto> Dir))) p = Some n"
      by (rule Cons.IH)
    then show ?thesis using None by simp
  next
    case (Some a)
    show ?thesis
    proof (cases a)
      case Dir
      have "snd (mkdirs (pre @ [c]) cs fs) p = Some n" using Cons.prems by (rule Cons.IH)
      with Some Dir show ?thesis by simp
    next
      case (File wr d)
      with Some Cons.prems show ?thesis by simp
    qed
  qed
qed

lemma mkdirs_frame:
  "snd (mkdirs pre cs fs) p \<noteq> fs p \<Longrightarrow>
   fs p = None \<and> snd (mkdirs pre cs fs) p = Some Dir \<and> (\<exists>q. q \<noteq> [] \<and> prefix q cs \<and> p = pre @ q)"
proof (induction cs arbitrary: pre fs)
  case Nil
  then show ?case by simp
next
  case (Cons c cs)
  show ?case
  proof (cases "fs (pre @ [c])")
    case None
    let ?fs = "fs(pre @ [c] \<mapsto> Dir)"
    have m: "mkdirs pre (c # cs) fs = mkdirs (pre @ [c]) cs ?fs" using None by simp
    show ?thesis
    proof (cases "p = pre @ [c]")
      case True
      have k: "snd (mkdirs (pre @ [c]) cs ?fs) p = Some Dir"
        by (rule mkdirs_keeps) (simp add: True)
      have "\<exists>q. q \<noteq> [] \<and> prefix q (c # cs) \<and> p = pre @ q"
        by (rule exI [of _ "[c]"]) (simp add: True)
      with k m None True show ?thesis by simp
    next
      case False
      then have e: "?fs p = fs p" by simp
      with Cons.prems m have "snd (mkdirs (pre @ [c]) cs ?fs) p \<noteq> ?fs p" by simp
      then have "?fs p = None \<and> snd (mkdirs (pre @ [c]) cs ?fs) p = Some Dir
          \<and> (\<exists>q. q \<noteq> [] \<and> prefix q cs \<and> p = (pre @ [c]) @ q)"
        by (rule Cons.IH)
      then obtain q where a: "?fs p = None" "snd (mkdirs (pre @ [c]) cs ?fs) p = Some Dir"
        and q: "q \<noteq> []" "prefix q cs" "p = (pre @ [c]) @ q" by blast
      have "\<exists>q. q \<noteq> [] \<and> prefix q (c # cs) \<and> p = pre @ q"
        by (rule exI [of _ "c # q"]) (simp add: q)
      with a m e show ?thesis by simp
    qed
  next
    case (Some a)
    show ?thesis
    proof (cases a)
      case Dir
      with Some have m: "mkdirs pre (c # cs) fs = mkdirs (pre @ [c]) cs fs" by simp
      with Cons.prems have "snd (mkdirs (pre @ [c]) cs fs) p \<noteq> fs p" by simp
      then have "fs p = None \<and> snd (mkdirs (pre @ [c]) cs fs) p = Some Dir
          \<and> (\<exists>q. q \<noteq> [] \<and> prefix q cs \<and> p = (pre @ [c]) @ q)"
        by (rule Cons.IH)
      then obtain q where a: "fs p = None" "snd (mkdirs (pre @ [c]) cs fs) p = Some Dir"
        and q: "q \<noteq> []" "prefix q cs" "p = (pre @ [c]) @ q" by blast
      have "\<exists>q. q \<noteq> [] \<and> prefix q (c # cs) \<and> p = pre @ q"
        by (rule exI [of _ "c # q"]) (simp add: q)
      with a m show ?thesis by simp
    next
      case (File wr d)
      with Some Cons.prems show ?thesis by simp
    qed
  qed
qed

lemma mkdirs_dirs:
  "fst (mkdirs pre cs fs) = Inr () \<Longrightarrow> q \<noteq> [] \<Longrightarrow> prefix q cs \<Longrightarrow>
   snd (mkdirs pre cs fs) (pre @ q) = Some Dir"
proof (induction cs arbitrary: pre fs q)
  case Nil
  then show ?case by simp
next
  case (Cons c cs)
  from Cons.prems(2,3) obtain q' where q: "q = c # q'" "prefix q' cs"
    by (cases q) simp_all
  have pq: "pre @ q = (pre @ [c]) @ q'" using q by simp
  show ?case
  proof (cases "fs (pre @ [c])")
    case None
    let ?fs = "fs(pre @ [c] \<mapsto> Dir)"
    have m: "mkdirs pre (c # cs) fs = mkdirs (pre @ [c]) cs ?fs" using None by simp
    show ?thesis
    proof (cases "q' = []")
      case True
      have "snd (mkdirs (pre @ [c]) cs ?fs) (pre @ [c]) = Some Dir"
        by (rule mkdirs_keeps) simp
      moreover have "pre @ q = pre @ [c]" using q True by simp
      ultimately show ?thesis by (simp only: m)
    next
      case False
      from Cons.prems(1) m have "fst (mkdirs (pre @ [c]) cs ?fs) = Inr ()" by simp
      then have "snd (mkdirs (pre @ [c]) cs ?fs) ((pre @ [c]) @ q') = Some Dir"
        using False q(2) by (rule Cons.IH)
      then show ?thesis by (simp only: m pq)
    qed
  next
    case (Some a)
    show ?thesis
    proof (cases a)
      case Dir
      with Some have m: "mkdirs pre (c # cs) fs = mkdirs (pre @ [c]) cs fs" by simp
      show ?thesis
      proof (cases "q' = []")
        case True
        have "snd (mkdirs (pre @ [c]) cs fs) (pre @ [c]) = Some Dir"
          by (rule mkdirs_keeps) (simp add: Some Dir)
        moreover have "pre @ q = pre @ [c]" using q True by simp
        ultimately show ?thesis by (simp only: m)
      next
        case False
        from Cons.prems(1) m have "fst (mkdirs (pre @ [c]) cs fs) = Inr ()" by simp
        then have "snd (mkdirs (pre @ [c]) cs fs) ((pre @ [c]) @ q') = Some Dir"
          using False q(2) by (rule Cons.IH)
        then show ?thesis by (simp only: m pq)
      qed
    next
      case (File wr d)
      with Some Cons.prems(1) show ?thesis by simp
    qed
  qed
qed

lemma mkdirs_ok:
  "(\<And>q. q \<noteq> [] \<Longrightarrow> prefix q cs \<Longrightarrow> \<not> is_file (fs (pre @ q))) \<Longrightarrow>
   fst (mkdirs pre cs fs) = Inr ()"
proof (induction cs arbitrary: pre fs)
  case Nil
  then show ?case by simp
next
  case (Cons c cs)
  have here: "\<not> is_file (fs (pre @ [c]))" using Cons.prems [of "[c]"] by simp
  have below: "\<not> is_file (fs ((pre @ [c]) @ q))" if "q \<noteq> []" "prefix q cs" for q
    using Cons.prems [of "c # q"] that by simp
  show ?case
  proof (cases "fs (pre @ [c])")
    case None
    let ?fs = "fs(pre @ [c] \<mapsto> Dir)"
    have m: "mkdirs pre (c # cs) fs = mkdirs (pre @ [c]) cs ?fs" using None by simp
    have b: "\<not> is_file (?fs ((pre @ [c]) @ q))" if "q \<noteq> []" "prefix q cs" for q
      using below [OF that] that(1) by simp
    have "fst (mkdirs (pre @ [c]) cs ?fs) = Inr ()"
      by (rule Cons.IH) (rule b)
    with m show ?thesis by simp
  next
    case (Some a)
    show ?thesis
    proof (cases a)
      case Dir
      with Some have m: "mkdirs pre (c # cs) fs = mkdirs (pre @ [c]) cs fs" by simp
      have "fst (mkdirs (pre @ [c]) cs fs) = Inr ()"
        by (rule Cons.IH) (rule below)
      with m show ?thesis by simp
    next
      case (File wr d)
      with Some here show ?thesis by simp
    qed
  qed
qed

lemma mkdirs_idle:
  "(\<And>q. q \<noteq> [] \<Longrightarrow> prefix q cs \<Longrightarrow> fs (pre @ q) = Some Dir) \<Longrightarrow>
   mkdirs pre cs fs = (Inr (), fs)"
proof (induction cs arbitrary: pre)
  case Nil
  then show ?case by simp
next
  case (Cons c cs)
  have here: "fs (pre @ [c]) = Some Dir" using Cons.prems [of "[c]"] by simp
  have below: "fs ((pre @ [c]) @ q) = Some Dir" if "q \<noteq> []" "prefix q cs" for q
    using Cons.prems [of "c # q"] that by simp
  have "mkdirs (pre @ [c]) cs fs = (Inr (), fs)"
    by (rule Cons.IH) (rule below)
  with here show ?case by simp
qed

section \<open>Facts about one target of the resize loop\<close>

lemma folder_path_facts:
  "folder_path f \<noteq> []" "length (folder_path f) = 6"
  "butlast (output_path f) = folder_path f" "length (output_path f) = 7"
  "(output_path f = output_path g) = (f = g)" "(folder_path f = folder_path g) = (f = g)"
  by (simp_all add: folder_path_def output_path_def)

lemma dir_chain_length: "q \<in> set (dir_chain p) \<Longrightarrow> length q \<le> length p \<and> q \<noteq> []"
  by (simp add: dir_chain_set prefix_length_le)

lemma dir_chain_self: "p \<noteq> [] \<Longrightarrow> p \<in> set (dir_chain p)"
  by (simp add: dir_chain_set)

lemma output_not_in_chain: "output_path f \<notin> set (dir_chain (folder_path g))"
proof
  assume "output_path f \<in> set (dir_chain (folder_path g))"
  from dir_chain_length [OF this] show False by (simp add: folder_path_facts)
qed

lemma makedirs_frame:
  assumes "makedirs p w = (r, w')" and "files w' q \<noteq> files w q"
  shows "files w q = None \<and> files w' q = Some Dir \<and> q \<in> set (dir_chain p)"
proof -
  obtain r0 fs' where m: "mkdirs [] p (files w) = (r0, fs')" by (cases "mkdirs [] p (files w)")
  with assms(1) have f: "files w' = fs'"
    by (cases r0) (auto simp: makedirs_def)
  with assms(2) m have "snd (mkdirs [] p (files w)) q \<noteq> files w q" by simp
  from mkdirs_frame [OF this] m f show ?thesis by (simp add: dir_chain_set)
qed

lemma makedirs_events:
  assumes "makedirs p w = (r, w')"
  shows "events w' = events w @ (case r of Inl e \<Rightarrow> [] | Inr u \<Rightarrow> [MadeDirs p])"
proof -
  obtain r0 fs' where m: "mkdirs [] p (files w) = (r0, fs')" by (cases "mkdirs [] p (files w)")
  with assms show ?thesis by (cases r0) (auto simp: makedirs_def)
qed

lemma makedirs_Inr:
  assumes "makedirs p w = (Inr u, w')" and "q \<in> set (dir_chain p)"
  shows "files w' q = Some Dir"
proof -
  obtain r0 fs' where m: "mkdirs [] p (files w) = (r0, fs')" by (cases "mkdirs [] p (files w)")
  with assms(1) have f: "files w' = fs'" and r0: "r0 = Inr ()"
    by (cases r0; auto simp: makedirs_def)+
  from m r0 have "fst (mkdirs [] p (files w)) = Inr ()" by simp
  from mkdirs_dirs [OF this, of q] assms(2) m f show ?thesis by (simp add: dir_chain_set)
qed

lemma makedirs_ok:
  assumes "\<And>q. q \<in> set (dir_chain p) \<Longrightarrow> \<not> is_file (files w q)"
  shows "\<exists>w'. makedirs p w = (Inr (), w')"
proof -
  have "fst (mkdirs [] p (files w)) = Inr ()"
    by (rule mkdirs_ok) (simp add: assms dir_chain_set)
  then obtain fs' where "mkdirs [] p (files w) = (Inr (), fs')"
    by (cases "mkdirs [] p (files w)") simp
  then show ?thesis by (simp add: makedirs_def)
qed

lemma makedirs_idle:
  assumes "\<And>q. q \<in> set (dir_chain p) \<Longrightarrow> files w q = Some Dir"
  shows "makedirs p w = (Inr (), w\<lparr>events := events w @ [MadeDirs p]\<rparr>)"
proof -
  have "mkdirs [] p (files w) = (Inr (), files w)"
    by (rule mkdirs_idle) (simp add: assms dir_chain_set)
  then show ?thesis by (simp add: makedirs_def)
qed

lemma save_png_frame:
  "save_png img p w = (r, w') \<Longrightarrow> q \<noteq> p \<Longrightarrow> files w' q = files w q"
  by (auto simp: save_png_def split: if_splits option.splits node.splits)

lemma save_png_events:
  "save_png img p w = (r, w') \<Longrightarrow>
   events w' = events w @ (case r of Inl e \<Rightarrow> [] | Inr u \<Rightarrow> [Saved p])"
  by (auto simp: save_png_def split: if_splits option.splits node.splits)

lemma save_png_written:
  "save_png img p w = (Inr u, w') \<Longrightarrow>
   intact img \<and> mode img \<in> set png_modes
   \<and> files w' p = Some (File True (Decodable (img\<lparr>format := Some ''PNG''\<rparr>)))"
  by (auto simp: save_png_def split: if_splits option.splits node.splits)

lemma save_png_ok:
  assumes "intact img" and "mode img \<in> set png_modes"
    and "butlast p \<noteq> []" and "files w (butlast p) = Some Dir"
    and "case files w p of None \<Rightarrow> True | Some Dir \<Rightarrow> False | Some (File wr d) \<Rightarrow> wr"
  shows "save_png img p w =
     (Inr (), w\<lparr>files := (files w)(p \<mapsto> File True (Decodable (img\<lparr>format := Some ''PNG''\<rparr>))),
               events := events w @ [Saved p]\<rparr>)"
  using assms by (auto simp: save_png_def split: option.splits node.splits)

lemma resize_Inr:
  "resize rs img sz flt = Inr r \<Longrightarrow>
   intact img \<and> intact r \<and> mode r = mode img \<and> size_wh r = sz
   \<and> (\<exists>px. rs flt sz img = Inr px \<and> pixels r = px)"
  by (auto simp: resize_def split: if_splits sum.splits)

lemma resize_ok:
  "intact img \<Longrightarrow> rs flt sz img = Inr px \<Longrightarrow>
   resize rs img sz flt = Inr (img\<lparr>size_wh := sz, format := None, pixels := px\<rparr>)"
  by (simp add: resize_def)

lemma resize_one_cases:
  obtains
    (mk) e w1 where "makedirs (folder_path folder) w = (Inl e, w1)"
      "resize_one rs img (folder, sz) w = (Inl e, w1)"
  | (rz) e w1 where "makedirs (folder_path folder) w = (Inr (), w1)"
      "resize rs img (sz, sz) LANCZOS = Inl e"
      "resize_one rs img (folder, sz) w = (Inl e, w1)"
  | (sv) e w1 resized w2 where "makedirs (folder_path folder) w = (Inr (), w1)"
      "resize rs img (sz, sz) LANCZOS = Inr resized"
      "save_png resized (output_path folder) w1 = (Inl e, w2)"
      "resize_one rs img (folder, sz) w = (Inl e, w2)"
  | (ok) w1 resized w2 where "makedirs (folder_path folder) w = (Inr (), w1)"
      "resize rs img (sz, sz) LANCZOS = Inr resized"
      "save_png resized (output_path folder) w1 = (Inr (), w2)"
      "resize_one rs img (folder, sz) w = (Inr (), print_msg (CreatedIcon folder sz) w2)"
proof -
  obtain r1 w1 where m: "makedirs (folder_path folder) w = (r1, w1)"
    by (cases "makedirs (folder_path folder) w")
  show thesis
  proof (cases r1)
    case (Inl e)
    with m show thesis by (intro mk [of e w1]) (simp_all add: resize_one_def)
  next
    case (Inr u)
    with m have m': "makedirs (folder_path folder) w = (Inr (), w1)" by simp
    show thesis
    proof (cases "resize rs img (sz, sz) LANCZOS")
      case (Inl e)
      with m' show thesis by (intro rz [of w1 e]) (simp_all add: resize_one_def)
    next
      case (Inr resized)
      obtain r2 w2 where s: "save_png resized (output_path folder) w1 = (r2, w2)"
        by (cases "save_png resized (output_path folder) w1")
      show thesis
      proof (cases r2)
        case (Inl e)
        with m' Inr s show thesis
          by (intro sv [of w1 resized e w2]) (simp_all add: resize_one_def)
      next
        case Inr': (Inr u)
        with s have s': "save_png resized (output_path folder) w1 = (Inr (), w2)" by simp
        with m' Inr show thesis
          by (intro ok [of w1 resized w2]) (simp_all add: resize_one_def)
      qed
    qed
  qed
qed

lemma resize_one_frame:
  assumes "resize_one rs img (folder, sz) w = (r, w')" and "files w' p \<noteq> files w p"
  shows "p = output_path folder
     \<or> (files w p = None \<and> files w' p = Some Dir \<and> p \<in> set (dir_chain (folder_path folder)))"
proof (cases rule: resize_one_cases [of folder w rs img sz])
  case (mk e w1)
  with assms have "files w1 p \<noteq> files w p" by simp
  from makedirs_frame [OF mk(1) this] mk(2) assms(1) show ?thesis by simp
next
  case (rz e w1)
  with assms have "files w1 p \<noteq> files w p" by simp
  from makedirs_frame [OF rz(1) this] rz(3) assms(1) show ?thesis by simp
next
  case (sv e w1 resized w2)
  with assms(1) have w': "w' = w2" by simp
  show ?thesis
  proof (cases "p = output_path folder")
    case True
    then show ?thesis by simp
  next
    case False
    from save_png_frame [OF sv(3) False] assms(2) w' have "files w1 p \<noteq> files w p" by simp
    from makedirs_frame [OF sv(1) this] save_png_frame [OF sv(3) False] w' show ?thesis by simp
  qed
next
  case (ok w1 resized w2)
  with assms(1) have w': "files w' = files w2" by (auto simp: print_msg_def)
  show ?thesis
  proof (cases "p = output_path folder")
    case True
    then show ?thesis by simp
  next
    case False
    from save_png_frame [OF ok(3) False] assms(2) w' have "files w1 p \<noteq> files w p" by simp
    from makedirs_frame [OF ok(1) this] save_png_frame [OF ok(3) False] w' show ?thesis by simp
  qed
qed

lemma resize_one_Inr:
  assumes "resize_one rs img (folder, sz) w = (Inr u, w')"
  shows "installed rs img (files w') (folder, sz)"
    and "events w' = events w @ target_events (folder, sz)"
    and "intact img" and "mode img \<in> set png_modes"
proof -
  from assms obtain w1 resized w2 where
    m: "makedirs (folder_path folder) w = (Inr (), w1)" and
    r: "resize rs img (sz, sz) LANCZOS = Inr resized" and
    s: "save_png resized (output_path folder) w1 = (Inr (), w2)" and
    w': "w' = print_msg (CreatedIcon folder sz) w2"
    by (cases rule: resize_one_cases [of folder w rs img sz]) simp_all
  note sw = save_png_written [OF s]
  note rr = resize_Inr [OF r]
  show "intact img" using rr by simp
  show "mode img \<in> set png_modes" using rr sw by simp
  show "events w' = events w @ target_events (folder, sz)"
    using makedirs_events [OF m] save_png_events [OF s] w'
    by (simp add: print_msg_def target_events_def)
  have d: "files w' q = Some Dir" if "q \<in> set (dir_chain (folder_path folder))" for q
  proof -
    have "q \<noteq> output_path folder" using that output_not_in_chain by blast
    from save_png_frame [OF s this] makedirs_Inr [OF m that] w'
    show ?thesis by (simp add: print_msg_def)
  qed
  have o: "files w' (output_path folder)
      = Some (File True (Decodable (resized\<lparr>format := Some ''PNG''\<rparr>)))"
    using sw w' by (simp add: print_msg_def)
  show "installed rs img (files w') (folder, sz)"
    using d o r by (simp add: installed_def list_all_iff)
qed

lemma resize_one_Inl:
  assumes "resize_one rs img (folder, sz) w = (Inl e, w')"
  shows "events w' = events w \<or> events w' = events w @ [MadeDirs (folder_path folder)]"
proof (cases rule: resize_one_cases [of folder w rs img sz])
  case (mk e w1)
  with assms makedirs_events [OF mk(1)] show ?thesis by simp
next
  case (rz e w1)
  with assms makedirs_events [OF rz(1)] show ?thesis by simp
next
  case (sv e w1 resized w2)
  with assms makedirs_events [OF sv(1)] save_png_events [OF sv(3)] show ?thesis by simp
next
  case (ok w1 resized w2)
  with assms show ?thesis by simp
qed

lemma resize_one_ok:
  assumes "intact img" and "mode img \<in> set png_modes"
    and "rs LANCZOS (sz, sz) img = Inr px"
    and "can_hold (files w) folder"
  shows "\<exists>w'. resize_one rs img (folder, sz) w = (Inr (), w')"
proof -
  have "\<not> is_file (files w q)" if "q \<in> set (dir_chain (folder_path folder))" for q
    using assms(4) that by (simp add: can_hold_def list_all_iff)
  from makedirs_ok [OF this] obtain w1 where
    m: "makedirs (folder_path folder) w = (Inr (), w1)" by blast
  let ?r = "img\<lparr>size_wh := (sz, sz), format := None, pixels := px\<rparr>"
  have r: "resize rs img (sz, sz) LANCZOS = Inr ?r" using assms(1,3) by (rule resize_ok)
  have par: "files w1 (butlast (output_path folder)) = Some Dir"
    using makedirs_Inr [OF m dir_chain_self [OF folder_path_facts(1)]]
    by (simp add: folder_path_facts)
  have slot: "files w1 (output_path folder) = files w (output_path folder)"
  proof (rule ccontr)
    assume "files w1 (output_path folder) \<noteq> files w (output_path folder)"
    from makedirs_frame [OF m this] output_not_in_chain show False by blast
  qed
  have "save_png ?r (output_path folder) w1 =
     (Inr (), w1\<lparr>files := (files w1)(output_path folder \<mapsto>
                  File True (Decodable (?r\<lparr>format := Some ''PNG''\<rparr>))),
               events := events w1 @ [Saved (output_path folder)]\<rparr>)"
  proof (rule save_png_ok)
    show "intact ?r" using assms(1) by simp
    show "mode ?r \<in> set png_modes" using assms(2) by simp
    show "butlast (output_path folder) \<noteq> []" by (simp add: folder_path_facts)
    show "files w1 (butlast (output_path folder)) = Some Dir" by (rule par)
    show "case files w1 (output_path folder) of None \<Rightarrow> True | Some Dir \<Rightarrow> False
          | Some (File wr d) \<Rightarrow> wr"
      using assms(4) slot by (simp add: can_hold_def)
  qed
  with m r show ?thesis by (simp add: resize_one_def)
qed

lemma resize_one_idle:
  assumes "installed rs img (files w) (folder, sz)" and "mode img \<in> set png_modes"
  shows "resize_one rs img (folder, sz) w
     = (Inr (), w\<lparr>events := events w @ target_events (folder, sz)\<rparr>)"
proof -
  from assms(1) obtain resized where
    r: "resize rs img (sz, sz) LANCZOS = Inr resized" and
    o: "files w (output_path folder)
          = Some (File True (Decodable (resized\<lparr>format := Some ''PNG''\<rparr>)))" and
    d: "\<And>q. q \<in> set (dir_chain (folder_path folder)) \<Longrightarrow> files w q = Some Dir"
    by (cases "resize rs img (sz, sz) LANCZOS") (auto simp: installed_def list_all_iff)
  let ?w1 = "w\<lparr>events := events w @ [MadeDirs (folder_path folder)]\<rparr>"
  have m: "makedirs (folder_path folder) w = (Inr (), ?w1)" by (rule makedirs_idle) (rule d)
  note rr = resize_Inr [OF r]
  have "save_png resized (output_path folder) ?w1 =
     (Inr (), ?w1\<lparr>files := (files ?w1)(output_path folder \<mapsto>
                  File True (Decodable (resized\<lparr>format := Some ''PNG''\<rparr>))),
               events := events ?w1 @ [Saved (output_path folder)]\<rparr>)"
  proof (rule save_png_ok)
    show "intact resized" using rr by simp
    show "mode resized \<in> set png_modes" using rr assms(2) by simp
    show "butlast (output_path folder) \<noteq> []" by (simp add: folder_path_facts)
    show "files ?w1 (butlast (output_path folder)) = Some Dir"
      using d [OF dir_chain_self [OF folder_path_facts(1)]] by (simp add: folder_path_facts)
    show "case files ?w1 (output_path folder) of None \<Rightarrow> True | Some Dir \<Rightarrow> False
          | Some (File wr d) \<Rightarrow> wr"
      using o by simp
  qed
  moreover have "(files w)(output_path folder \<mapsto>
       File True (Decodable (resized\<lparr>format := Some ''PNG''\<rparr>))) = files w"
    using o by (rule map_upd_triv)
  ultimately show ?thesis using m r
    by (simp add: resize_one_def print_msg_def target_events_def)
qed

lemma resize_one_keeps:
  assumes "files w p = Some n" and "p \<noteq> output_path (fst d)"
    and "resize_one rs img d w = (r, w')"
  shows "files w' p = Some n"
proof (rule ccontr)
  assume "files w' p \<noteq> Some n"
  with assms(1) have "files w' p \<noteq> files w p" by simp
  from resize_one_frame [of rs img "fst d" "snd d" w r w' p] assms this
  show False by simp
qed

lemma installed_kept_one:
  assumes "installed rs img (files w) d" and "fst d \<noteq> fst d'"
    and "resize_one rs img d' w = (r, w')"
  shows "installed rs img (files w') d"
proof -
  have c: "files w' q = Some Dir" if "q \<in> set (dir_chain (folder_path (fst d)))" for q
  proof -
    have "files w q = Some Dir" using assms(1) that by (simp add: installed_def list_all_iff)
    moreover have "q \<noteq> output_path (fst d')" using that output_not_in_chain by blast
    ultimately show ?thesis using assms(3) by (rule resize_one_keeps)
  qed
  from assms(1) obtain resized where
    r: "resize rs img (snd d, snd d) LANCZOS = Inr resized" and
    o: "files w (output_path (fst d))
          = Some (File True (Decodable (resized\<lparr>format := Some ''PNG''\<rparr>)))"
    by (cases "resize rs img (snd d, snd d) LANCZOS") (auto simp: installed_def)
  have "output_path (fst d) \<noteq> output_path (fst d')"
    using assms(2) by (simp add: folder_path_facts)
  with o have "files w' (output_path (fst d))
          = Some (File True (Decodable (resized\<lparr>format := Some ''PNG''\<rparr>)))"
    using assms(3) by (rule resize_one_keeps)
  with c r show ?thesis by (simp add: installed_def list_all_iff)
qed

lemma can_hold_kept_one:
  assumes "can_hold (files w) g" and "g \<noteq> fst d'"
    and "resize_one rs img d' w = (r, w')"
  shows "can_hold (files w') g"
proof -
  note fr = resize_one_frame [of rs img "fst d'" "snd d'" w r w']
  have c: "\<not> is_file (files w' q)" if "q \<in> set (dir_chain (folder_path g))" for q
  proof (cases "files w' q = files w q")
    case True
    with assms(1) that show ?thesis by (simp add: can_hold_def list_all_iff)
  next
    case False
    moreover have "q \<noteq> output_path (fst d')" using that output_not_in_chain by blast
    ultimately have "files w' q = Some Dir" using fr [of q] assms(3) by simp
    then show ?thesis by simp
  qed
  have "files w' (output_path g) = files w (output_path g)"
  proof (rule ccontr)
    assume a: "files w' (output_path g) \<noteq> files w (output_path g)"
    have "output_path g \<noteq> output_path (fst d')" using assms(2) by (simp add: folder_path_facts)
    with fr [of "output_path g"] assms(3) a output_not_in_chain show False by simp
  qed
  with assms(1) c show ?thesis by (simp add: can_hold_def list_all_iff)
qed

lemma resize_each_Cons_Inl:
  "resize_one rs img d w = (Inl e, w1) \<Longrightarrow> resize_each rs img (d # ds) w = (Inl e, w1)"
  by simp

lemma resize_each_Cons_Inr:
  "resize_one rs img d w = (Inr u, w1) \<Longrightarrow>
   resize_each rs img (d # ds) w = resize_each rs img ds w1"
  by simp

lemma installed_kept:
  "installed rs img (files w) d \<Longrightarrow> fst d \<notin> fst ` set ds \<Longrightarrow>
   resize_each rs img ds w = (r, w') \<Longrightarrow> installed rs img (files w') d"
proof (induction ds arbitrary: w)
  case Nil
  then show ?case by simp
next
  case (Cons d' ds)
  obtain r1 w1 where o: "resize_one rs img d' w = (r1, w1)"
    by (cases "resize_one rs img d' w")
  from Cons.prems(2) have ne: "fst d \<noteq> fst d'" and ni: "fst d \<notin> fst ` set ds" by auto
  have i1: "installed rs img (files w1) d"
    using Cons.prems(1) ne o by (rule installed_kept_one)
  show ?case
  proof (cases r1)
    case (Inl e)
    with o Cons.prems(3) have "w' = w1" by simp
    with i1 show ?thesis by simp
  next
    case (Inr u)
    with o Cons.prems(3) have "resize_each rs img ds w1 = (r, w')" by simp
    with i1 ni show ?thesis by (rule Cons.IH)
  qed
qed

lemma resize_each_ok:
  assumes "intact img" and "mode img \<in> set png_modes"
  shows "distinct (map fst ds) \<Longrightarrow>
    (\<And>d. d \<in> set ds \<Longrightarrow> \<exists>px. rs LANCZOS (snd d, snd d) img = Inr px) \<Longrightarrow>
    (\<And>d. d \<in> set ds \<Longrightarrow> can_hold (files w) (fst d)) \<Longrightarrow>
    \<exists>w'. resize_each rs img ds w = (Inr (), w')"
proof (induction ds arbitrary: w)
  case Nil
  then show ?case by simp
next
  case (Cons d ds)
  from Cons.prems(2) [of d] obtain px where px: "rs LANCZOS (snd d, snd d) img = Inr px"
    by auto
  have "can_hold (files w) (fst d)" using Cons.prems(3) [of d] by simp
  from resize_one_ok [where rs = rs and img = img and sz = "snd d" and px = px and w = w
      and folder = "fst d", OF assms px this]
  obtain w1 where o: "resize_one rs img d w = (Inr (), w1)" by auto
  have "\<exists>w'. resize_each rs img ds w1 = (Inr (), w')"
  proof (rule Cons.IH)
    show "distinct (map fst ds)" using Cons.prems(1) by simp
    show "\<exists>px. rs LANCZOS (snd d', snd d') img = Inr px" if "d' \<in> set ds" for d'
      using Cons.prems(2) [of d'] that by simp
    show "can_hold (files w1) (fst d')" if "d' \<in> set ds" for d'
    proof (rule can_hold_kept_one [OF _ _ o])
      show "can_hold (files w) (fst d')" using Cons.prems(3) [of d'] that by simp
      show "fst d' \<noteq> fst d" using Cons.prems(1) that by (auto simp: image_iff)
    qed
  qed
  with o show ?case by simp
qed

lemma resize_each_idle:
  assumes "mode img \<in> set png_modes"
  shows "(\<And>d. d \<in> set ds \<Longrightarrow> installed rs img (files w) d) \<Longrightarrow>
    resize_each rs img ds w
      = (Inr (), w\<lparr>events := events w @ concat (map target_events ds)\<rparr>)"
proof (induction ds arbitrary: w)
  case Nil
  then show ?case by simp
next
  case (Cons d ds)
  let ?w1 = "w\<lparr>events := events w @ target_events d\<rparr>"
  have "installed rs img (files w) (fst d, snd d)" using Cons.prems [of d] by simp
  from resize_one_idle [where rs = rs and img = img and w = w and folder = "fst d"
      and sz = "snd d", OF this assms]
  have o: "resize_one rs img d w = (Inr (), ?w1)" by simp
  have "resize_each rs img ds ?w1
      = (Inr (), ?w1\<lparr>events := events ?w1 @ concat (map target_events ds)\<rparr>)"
  proof (rule Cons.IH)
    show "installed rs img (files ?w1) d'" if "d' \<in> set ds" for d'
      using Cons.prems [of d'] that by simp
  qed
  with o show ?case by simp
qed

lemma resize_each_frame:
  "resize_each rs img ds w = (r, w') \<Longrightarrow> files w' p \<noteq> files w p \<Longrightarrow>
   (\<exists>d\<in>set ds. p = output_path (fst d))
   \<or> (files w p = None \<and> files w' p = Some Dir
       \<and> (\<exists>d\<in>set ds. p \<in> set (dir_chain (folder_path (fst d)))))"
proof (induction ds arbitrary: w)
  case Nil
  then show ?case by simp
next
  case (Cons d ds)
  obtain r1 w1 where o: "resize_one rs img d w = (r1, w1)"
    by (cases "resize_one rs img d w")
  note fr = resize_one_frame [of rs img "fst d" "snd d" w r1 w1 p]
  show ?case
  proof (cases r1)
    case (Inl e)
    with o Cons.prems(1) have "w' = w1" by simp
    with fr o Cons.prems(2) show ?thesis by auto
  next
    case (Inr u)
    with o Cons.prems(1) have e: "resize_each rs img ds w1 = (r, w')" by simp
    show ?thesis
    proof (cases "files w1 p = files w p")
      case True
      with Cons.prems(2) have "files w' p \<noteq> files w1 p" by simp
      from Cons.IH [OF e this] True show ?thesis by auto
    next
      case False
      with fr o have c: "p = output_path (fst d)
          \<or> (files w p = None \<and> files w1 p = Some Dir
              \<and> p \<in> set (dir_chain (folder_path (fst d))))" by simp
      show ?thesis
      proof (cases "p = output_path (fst d)")
        case True
        then show ?thesis by simp
      next
        case F: False
        with c have a: "files w p = None" "files w1 p = Some Dir"
          "p \<in> set (dir_chain (folder_path (fst d)))" by simp_all
        show ?thesis
        proof (cases "files w' p = files w1 p")
          case True
          with a show ?thesis by auto
        next
          case False
          from Cons.IH [OF e False] a(2) show ?thesis by auto
        qed
      qed
    qed
  qed
qed

section \<open>Facts about the resize loop and the whole of \<^verbatim>\<open>resize_logo\<close>\<close>

lemma resize_each_progress:
  "distinct (map fst ds) \<Longrightarrow> resize_each rs img ds w = (r, w') \<Longrightarrow>
   \<exists>n extra. n \<le> length ds
     \<and> events w' = events w @ concat (map target_events (take n ds)) @ extra
     \<and> (\<forall>d\<in>set (take n ds). installed rs img (files w') d)
     \<and> (case r of
          Inr u \<Rightarrow> n = length ds \<and> extra = []
        | Inl e \<Rightarrow> n < length ds
            \<and> (extra = [] \<or> extra = [MadeDirs (folder_path (fst (ds ! n)))]))"
proof (induction ds arbitrary: w)
  case Nil
  then show ?case by auto
next
  case (Cons d ds)
  obtain r1 w1 where o: "resize_one rs img d w = (r1, w1)"
    by (cases "resize_one rs img d w")
  show ?case
  proof (cases r1)
    case (Inl e)
    with o Cons.prems(2) have w': "w' = w1" and r: "r = Inl e" by simp_all
    from o Inl have "resize_one rs img (fst d, snd d) w = (Inl e, w1)" by simp
    from resize_one_Inl [OF this]
    have "events w1 = events w \<or> events w1 = events w @ [MadeDirs (folder_path (fst d))]" .
    then obtain extra where
      "events w1 = events w @ extra"
      "extra = [] \<or> extra = [MadeDirs (folder_path (fst d))]" by auto
    with w' r show ?thesis
      by (intro exI [of _ 0] exI [of _ extra]) simp
  next
    case (Inr u)
    with o have o': "resize_one rs img (fst d, snd d) w = (Inr u, w1)" by simp
    from o Inr Cons.prems(2) have e: "resize_each rs img ds w1 = (r, w')" by simp
    have dd: "distinct (map fst ds)" and ni: "fst d \<notin> fst ` set ds"
      using Cons.prems(1) by simp_all
    from Cons.IH [OF dd e] obtain n extra where
      n: "n \<le> length ds" and
      ev: "events w' = events w1 @ concat (map target_events (take n ds)) @ extra" and
      ins: "\<forall>d\<in>set (take n ds). installed rs img (files w') d" and
      res: "case r of
          Inr u \<Rightarrow> n = length ds \<and> extra = []
        | Inl e \<Rightarrow> n < length ds
            \<and> (extra = [] \<or> extra = [MadeDirs (folder_path (fst (ds ! n)))])"
      by blast
    have i1: "installed rs img (files w1) d" using resize_one_Inr(1) [OF o'] by simp
    have id: "installed rs img (files w') d" using i1 ni e by (rule installed_kept)
    have ev1: "events w1 = events w @ target_events d" using resize_one_Inr(2) [OF o'] by simp
    show ?thesis
    proof (intro exI [of _ "Suc n"] exI [of _ extra] conjI)
      show "Suc n \<le> length (d # ds)" using n by simp
      show "events w' = events w @ concat (map target_events (take (Suc n) (d # ds))) @ extra"
        using ev ev1 by simp
      show "\<forall>d\<in>set (take (Suc n) (d # ds)). installed rs img (files w') d"
        using ins id by simp
      show "case r of
          Inr u \<Rightarrow> Suc n = length (d # ds) \<and> extra = []
        | Inl e \<Rightarrow> Suc n < length (d # ds)
            \<and> (extra = [] \<or> extra = [MadeDirs (folder_path (fst ((d # ds) ! Suc n)))])"
        using res by (cases r) simp_all
    qed
  qed
qed

lemma resize_each_Inr_valid:
  assumes "resize_each rs img (d # ds) w = (Inr u, w')"
  shows "intact img \<and> mode img \<in> set png_modes"
proof -
  obtain r1 w1 where o: "resize_one rs img d w = (r1, w1)"
    by (cases "resize_one rs img d w")
  with assms obtain v where "r1 = Inr v" by (cases r1) simp_all
  with o have "resize_one rs img (fst d, snd d) w = (Inr v, w1)" by simp
  from resize_one_Inr(3,4) [OF this] show ?thesis by simp
qed

lemma densities_distinct: "distinct (map fst densities)"
  by (simp add: densities_def)

lemma resize_logo_cases:
  obtains
    (missing) "files w logo_path = None"
      "resize_logo rs w
         = (Inr False, w\<lparr>events := events w @ [Print ResizingBanner, Print LogoNotFound]\<rparr>)"
  | (unreadable) e where "files w logo_path \<noteq> None"
      "\<forall>wr img. files w logo_path \<noteq> Some (File wr (Decodable img))"
      "resize_logo rs w
         = (Inr False, w\<lparr>events := events w @ [Print ResizingBanner, Print (ErrorResizingLogo e)]\<rparr>)"
  | (failed) wr img e w2 where "files w logo_path = Some (File wr (Decodable img))"
      "resize_each rs img densities
         (w\<lparr>events := events w @ [Print ResizingBanner, Opened logo_path,
                                    Print (OriginalLogoSize (size_wh img))]\<rparr>) = (Inl e, w2)"
      "resize_logo rs w = (Inr False, w2\<lparr>events := events w2 @ [Print (ErrorResizingLogo e)]\<rparr>)"
  | (finished) wr img w2 where "files w logo_path = Some (File wr (Decodable img))"
      "resize_each rs img densities
         (w\<lparr>events := events w @ [Print ResizingBanner, Opened logo_path,
                                    Print (OriginalLogoSize (size_wh img))]\<rparr>) = (Inr (), w2)"
      "resize_logo rs w
         = (Inr True, w2\<lparr>events := events w2 @ [Print ResizingComplete, Print AllIconsCreated,
                                                  Print WillDisplayLogo]\<rparr>)"
proof (cases "files w logo_path")
  case None
  then show thesis
    by (intro missing) (simp_all add: resize_logo_def Let_def path_exists_def print_msg_def)
next
  case (Some n)
  show thesis
  proof (cases "\<exists>wr img. n = File wr (Decodable img)")
    case False
    then obtain e where "Image_open logo_path (print_msg ResizingBanner w)
        = (Inl e, print_msg ResizingBanner w)"
      using Some
      by (cases n; cases "case n of File wr c \<Rightarrow> c | Dir \<Rightarrow> Garbage")
         (auto simp: Image_open_def print_msg_def)
    with Some False show thesis
      by (intro unreadable [of e])
         (auto simp: resize_logo_def resize_body_def Let_def path_exists_def print_msg_def)
  next
    case True
    then obtain wr img where n: "n = File wr (Decodable img)" by blast
    let ?w1 = "w\<lparr>events := events w @ [Print ResizingBanner, Opened logo_path,
                                    Print (OriginalLogoSize (size_wh img))]\<rparr>"
    obtain r w2 where e: "resize_each rs img densities ?w1 = (r, w2)"
      by (cases "resize_each rs img densities ?w1")
    have op: "Image_open logo_path (print_msg ResizingBanner w)
        = (Inr img, w\<lparr>events := events w @ [Print ResizingBanner, Opened logo_path]\<rparr>)"
      using Some n by (simp add: Image_open_def print_msg_def)
    show thesis
    proof (cases r)
      case (Inl err)
      with e op Some n show thesis
        by (intro failed [of wr img err w2])
           (simp_all add: resize_logo_def resize_body_def Let_def path_exists_def print_msg_def)
    next
      case (Inr u)
      with e op Some n show thesis
        by (intro finished [of wr img w2])
           (simp_all add: resize_logo_def resize_body_def Let_def path_exists_def print_msg_def)
    qed
  qed
qed

lemma valid_sourceD:
  assumes "valid_source rs img"
  shows "intact img" and "mode img \<in> set png_modes"
    and "\<And>d. d \<in> set densities \<Longrightarrow> \<exists>px. rs LANCZOS (snd d, snd d) img = Inr px"
proof -
  show "intact img" "mode img \<in> set png_modes" using assms by (simp_all add: valid_source_def)
  fix d assume "d \<in> set densities"
  with assms have "case rs LANCZOS (snd d, snd d) img of Inl e \<Rightarrow> False | Inr px \<Rightarrow> True"
    by (simp add: valid_source_def list_all_iff)
  then show "\<exists>px. rs LANCZOS (snd d, snd d) img = Inr px"
    by (cases "rs LANCZOS (snd d, snd d) img") simp_all
qed

lemma installedD:
  assumes "installed rs img fs d"
  shows "\<exists>resized. resize rs img (snd d, snd d) LANCZOS = Inr resized
      \<and> size_wh resized = (snd d, snd d) \<and> mode resized = mode img
      \<and> fs (folder_path (fst d)) = Some Dir
      \<and> fs (output_path (fst d))
          = Some (File True (Decodable (resized\<lparr>format := Some ''PNG''\<rparr>)))"
proof -
  from assms obtain resized where
    r: "resize rs img (snd d, snd d) LANCZOS = Inr resized" and
    o: "fs (output_path (fst d))
          = Some (File True (Decodable (resized\<lparr>format := Some ''PNG''\<rparr>)))" and
    c: "\<And>q. q \<in> set (dir_chain (folder_path (fst d))) \<Longrightarrow> fs q = Some Dir"
    by (cases "resize rs img (snd d, snd d) LANCZOS") (auto simp: installed_def list_all_iff)
  from c [OF dir_chain_self [OF folder_path_facts(1)]] resize_Inr [OF r] r o
  show ?thesis by simp
qed

lemma resize_logo_succeeds:
  assumes f: "files w logo_path = Some (File wr (Decodable img))"
    and v: "valid_source rs img"
    and h: "list_all (\<lambda>d. can_hold (files w) (fst d)) densities"
  obtains w2 where
    "resize_each rs img densities
         (w\<lparr>events := events w @ [Print ResizingBanner, Opened logo_path,
                                    Print (OriginalLogoSize (size_wh img))]\<rparr>) = (Inr (), w2)"
    "resize_logo rs w
         = (Inr True, w2\<lparr>events := events w2 @ [Print ResizingComplete, Print AllIconsCreated,
                                                  Print WillDisplayLogo]\<rparr>)"
proof -
  let ?w1 = "w\<lparr>events := events w @ [Print ResizingBanner, Opened logo_path,
                                    Print (OriginalLogoSize (size_wh img))]\<rparr>"
  have "\<exists>w'. resize_each rs img densities ?w1 = (Inr (), w')"
  proof (rule resize_each_ok [OF valid_sourceD(1,2) [OF v] densities_distinct])
    show "\<exists>px. rs LANCZOS (snd d, snd d) img = Inr px" if "d \<in> set densities" for d
      using valid_sourceD(3) [OF v that] .
    show "can_hold (files ?w1) (fst d)" if "d \<in> set densities" for d
      using h that by (simp add: list_all_iff)
  qed
  then obtain w2 where e: "resize_each rs img densities ?w1 = (Inr (), w2)" by blast
  show thesis
  proof (cases rule: resize_logo_cases [of w rs])
    case missing
    with f show ?thesis by simp
  next
    case (unreadable e)
    with f show ?thesis by simp
  next
    case (failed wr' img' e' w2')
    with f e show ?thesis by simp
  next
    case (finished wr' img' w2')
    with f e have "w2' = w2" by simp
    with finished e show ?thesis by (intro that [of w2]) simp_all
  qed
qed

section \<open>The claims about \<^verbatim>\<open>resize_logo.py\<close>\<close>

text \<open>
  Claim C2, as amended. The claim promises the five icons and the return value \<^verbatim>\<open>True\<close>
  for every valid source image; the script delivers them when, besides, the file tree
  lets the five targets be produced. For a valid source image at \<^verbatim>\<open>logo.png\<close> (one that
  loads, that Pillow resizes to the five sizes and whose mode the PNG encoder writes), in
  a file tree where no regular file stands where a density directory or one of its
  ancestors has to be and no \<^verbatim>\<open>ic_launcher.png\<close> is a directory or a read-only file,
  \<^verbatim>\<open>resize_logo\<close> returns \<^verbatim>\<open>True\<close>, and afterwards, for each of the five targets of
  the list (sizes 48, 72, 96, 144 and 192), the density directory exists and its
  \<^verbatim>\<open>ic_launcher.png\<close> holds the PNG encoding of what \<^verbatim>\<open>resize\<close> returned for the
  Lanczos filter, of exactly the square size of the target, whatever the size of the
  source. The five output paths are distinct, and nothing else in the file tree changed
  but directories that were missing.
\<close>

theorem resizer_writes_five_icons:
  assumes "files w logo_path = Some (File wr (Decodable img))"
    and "valid_source rs img"
    and "list_all (\<lambda>d. can_hold (files w) (fst d)) densities"
  shows "\<exists>w'. resize_logo rs w = (Inr True, w')
     \<and> map snd densities = [48, 72, 96, 144, 192]
     \<and> distinct (map (\<lambda>d. output_path (fst d)) densities)
     \<and> (\<forall>d\<in>set densities. \<exists>resized.
           resize rs img (snd d, snd d) LANCZOS = Inr resized
           \<and> size_wh resized = (snd d, snd d)
           \<and> files w' (folder_path (fst d)) = Some Dir
           \<and> files w' (folder_path (fst d) @ [''ic_launcher.png''])
               = Some (File True (Decodable (resized\<lparr>format := Some ''PNG''\<rparr>))))
     \<and> (\<forall>p. files w' p \<noteq> files w p \<longrightarrow>
           p \<in> set (map (\<lambda>d. output_path (fst d)) densities)
           \<or> (files w p = None \<and> files w' p = Some Dir))"
proof -
  let ?w1 = "w\<lparr>events := events w @ [Print ResizingBanner, Opened logo_path,
                                    Print (OriginalLogoSize (size_wh img))]\<rparr>"
  from resize_logo_succeeds [OF assms] obtain w2 where
    e: "resize_each rs img densities ?w1 = (Inr (), w2)" and
    l: "resize_logo rs w
         = (Inr True, w2\<lparr>events := events w2 @ [Print ResizingComplete, Print AllIconsCreated,
                                                  Print WillDisplayLogo]\<rparr>)"
    by blast
  let ?w' = "w2\<lparr>events := events w2 @ [Print ResizingComplete, Print AllIconsCreated,
                                                  Print WillDisplayLogo]\<rparr>"
  from resize_each_progress [OF densities_distinct e]
  have ins: "\<And>d. d \<in> set densities \<Longrightarrow> installed rs img (files w2) d" by auto
  have a: "\<forall>d\<in>set densities. \<exists>resized.
           resize rs img (snd d, snd d) LANCZOS = Inr resized
           \<and> size_wh resized = (snd d, snd d)
           \<and> files ?w' (folder_path (fst d)) = Some Dir
           \<and> files ?w' (folder_path (fst d) @ [''ic_launcher.png''])
               = Some (File True (Decodable (resized\<lparr>format := Some ''PNG''\<rparr>)))"
  proof
    fix d assume "d \<in> set densities"
    from installedD [OF ins [OF this]] show "\<exists>resized.
           resize rs img (snd d, snd d) LANCZOS = Inr resized
           \<and> size_wh resized = (snd d, snd d)
           \<and> files ?w' (folder_path (fst d)) = Some Dir
           \<and> files ?w' (folder_path (fst d) @ [''ic_launcher.png''])
               = Some (File True (Decodable (resized\<lparr>format := Some ''PNG''\<rparr>)))"
      by (auto simp: output_path_def)
  qed
  have b: "\<forall>p. files ?w' p \<noteq> files w p \<longrightarrow>
           p \<in> set (map (\<lambda>d. output_path (fst d)) densities)
           \<or> (files w p = None \<and> files ?w' p = Some Dir)"
  proof (intro allI impI)
    fix p assume "files ?w' p \<noteq> files w p"
    then have "files w2 p \<noteq> files ?w1 p" by simp
    from resize_each_frame [OF e this]
    show "p \<in> set (map (\<lambda>d. output_path (fst d)) densities)
           \<or> (files w p = None \<and> files ?w' p = Some Dir)" by auto
  qed
  have c: "map snd densities = [48, 72, 96, 144, 192]" by (simp add: densities_def)
  have d: "distinct (map (\<lambda>d. output_path (fst d)) densities)"
    by (simp add: densities_def folder_path_facts)
  show ?thesis
    by (rule exI [of _ ?w']) (intro conjI l a b c d)
qed

lemma logo_world_file: "files (logo_world c) logo_path = Some (File True c)"
  by (simp add: logo_world_def tree_def)


lemma logo_world_can_hold:
  "list_all (\<lambda>d. can_hold (files (logo_world c)) (fst d)) densities"
  by (simp add: densities_def can_hold_def dir_chain_def folder_path_def output_path_def
      logo_world_def tree_def logo_path_def)

lemma flat_resampler_valid: "valid_source flat_resampler (dot ''RGBA'' f p)"
  by (simp add: valid_source_def dot_simps png_modes_def flat_resampler_def densities_def)

lemma mdpi_in_densities: "(''mipmap-mdpi'', 48) \<in> set densities"
  by (simp add: densities_def)

lemma xxxhdpi_in_densities: "(''mipmap-xxxhdpi'', 192) \<in> set densities"
  by (simp add: densities_def)

theorem resizer_writes_five_icons_witness:
  "\<exists>w'. resize_logo flat_resampler
           (logo_world (Decodable (dot ''RGBA'' (Some ''PNG'') [1, 2, 3, 4]))) = (Inr True, w')
     \<and> (\<exists>out. files w' (folder_path ''mipmap-mdpi'' @ [''ic_launcher.png''])
                 = Some (File True (Decodable out))
              \<and> size_wh out = (48, 48) \<and> format out = Some ''PNG'')
     \<and> (\<exists>out. files w' (folder_path ''mipmap-xxxhdpi'' @ [''ic_launcher.png''])
                 = Some (File True (Decodable out))
              \<and> size_wh out = (192, 192) \<and> format out = Some ''PNG'')
     \<and> files w' (folder_path ''mipmap-mdpi'') = Some Dir"
proof -
  let ?img = "dot ''RGBA'' (Some ''PNG'') [1, 2, 3, 4]"
  let ?w = "logo_world (Decodable ?img)"
  from resizer_writes_five_icons [OF logo_world_file flat_resampler_valid logo_world_can_hold,
      of "Some ''PNG''" "[1, 2, 3, 4]"]
  obtain w' where r: "resize_logo flat_resampler ?w = (Inr True, w')"
    and a: "\<forall>d\<in>set densities. \<exists>resized.
           resize flat_resampler ?img (snd d, snd d) LANCZOS = Inr resized
           \<and> size_wh resized = (snd d, snd d)
           \<and> files w' (folder_path (fst d)) = Some Dir
           \<and> files w' (folder_path (fst d) @ [''ic_launcher.png''])
               = Some (File True (Decodable (resized\<lparr>format := Some ''PNG''\<rparr>)))"
    by blast
  from a mdpi_in_densities obtain r1 where
    m: "size_wh r1 = (48, 48)" "files w' (folder_path ''mipmap-mdpi'') = Some Dir"
       "files w' (folder_path ''mipmap-mdpi'' @ [''ic_launcher.png''])
               = Some (File True (Decodable (r1\<lparr>format := Some ''PNG''\<rparr>)))"
    by fastforce
  from a xxxhdpi_in_densities obtain r2 where
    x: "size_wh r2 = (192, 192)"
       "files w' (folder_path ''mipmap-xxxhdpi'' @ [''ic_launcher.png''])
               = Some (File True (Decodable (r2\<lparr>format := Some ''PNG''\<rparr>)))"
    by fastforce
  show ?thesis
  proof (intro exI [of _ w'] conjI)
    show "resize_logo flat_resampler ?w = (Inr True, w')" by (rule r)
    show "\<exists>out. files w' (folder_path ''mipmap-mdpi'' @ [''ic_launcher.png''])
                 = Some (File True (Decodable out))
              \<and> size_wh out = (48, 48) \<and> format out = Some ''PNG''"
      using m by (intro exI [of _ "r1\<lparr>format := Some ''PNG''\<rparr>"]) simp
    show "\<exists>out. files w' (folder_path ''mipmap-xxxhdpi'' @ [''ic_launcher.png''])
                 = Some (File True (Decodable out))
              \<and> size_wh out = (192, 192) \<and> format out = Some ''PNG''"
      using x by (intro exI [of _ "r2\<lparr>format := Some ''PNG''\<rparr>"]) simp
    show "files w' (folder_path ''mipmap-mdpi'') = Some Dir" by (rule m(2))
  qed
qed

lemma blocked_world_file: "files (blocked_world c) logo_path = Some (File True c)"
  by (simp add: blocked_world_def tree_def)

lemma blocked_world_events: "events (blocked_world c) = []"
  by (simp add: blocked_world_def)

lemma blocked_run_raises:
  "fst (resize_body flat_resampler
          (print_msg ResizingBanner
             (blocked_world (Decodable (dot ''RGBA'' (Some ''PNG'') [1, 2, 3, 4])))))
     = Inl FileExistsError"
  by (simp add: resize_body_def print_msg_def blocked_world_def tree_def Image_open_def
      logo_path_def densities_def resize_one_def makedirs_def folder_path_def output_path_def
      resize_def flat_resampler_def dot_def save_png_def png_modes_def)

lemma blocked_run_saved:
  "Saved (output_path ''mipmap-mdpi'')
     \<in> set (events (snd (resize_body flat_resampler
          (print_msg ResizingBanner
             (blocked_world (Decodable (dot ''RGBA'' (Some ''PNG'') [1, 2, 3, 4])))))))"
  by (simp add: resize_body_def print_msg_def blocked_world_def tree_def Image_open_def
      logo_path_def densities_def resize_one_def makedirs_def folder_path_def output_path_def
      resize_def flat_resampler_def dot_def save_png_def png_modes_def)

text \<open>
  The claim C2 as stated fails for a valid source image in a file tree where a regular
  file stands in place of the directory \<^verbatim>\<open>mipmap-hdpi\<close>: the run returns \<^verbatim>\<open>False\<close>
  and the hdpi icon is not written.
\<close>

theorem valid_logo_in_blocked_tree_fails:
  "valid_source flat_resampler (dot ''RGBA'' (Some ''PNG'') [1, 2, 3, 4])
   \<and> files (blocked_world (Decodable (dot ''RGBA'' (Some ''PNG'') [1, 2, 3, 4]))) logo_path
       = Some (File True (Decodable (dot ''RGBA'' (Some ''PNG'') [1, 2, 3, 4])))
   \<and> fst (resize_logo flat_resampler
            (blocked_world (Decodable (dot ''RGBA'' (Some ''PNG'') [1, 2, 3, 4])))) = Inr False
   \<and> files (snd (resize_logo flat_resampler
            (blocked_world (Decodable (dot ''RGBA'' (Some ''PNG'') [1, 2, 3, 4])))))
         (output_path ''mipmap-hdpi'') = None"
proof -
  let ?img = "dot ''RGBA'' (Some ''PNG'') [1, 2, 3, 4]"
  let ?w = "blocked_world (Decodable ?img)"
  let ?b = "resize_body flat_resampler (print_msg ResizingBanner ?w)"
  have ex: "path_exists (print_msg ResizingBanner ?w) logo_path"
    by (simp add: path_exists_def blocked_world_file print_msg_def)
  obtain w1 where rb: "?b = (Inl FileExistsError, w1)"
    using blocked_run_raises by (metis prod.collapse)
  have rl: "resize_logo flat_resampler ?w
      = (Inr False, print_msg (ErrorResizingLogo FileExistsError) w1)"
    using ex rb by (simp add: resize_logo_def Let_def)
  have "files (snd ?b) (output_path ''mipmap-hdpi'') = None"
    by (simp add: resize_body_def print_msg_def blocked_world_def tree_def Image_open_def
      logo_path_def densities_def resize_one_def makedirs_def folder_path_def output_path_def
      resize_def flat_resampler_def dot_def save_png_def png_modes_def)
  then have nf: "files w1 (output_path ''mipmap-hdpi'') = None" by (simp add: rb)
  have v: "valid_source flat_resampler ?img" by (rule flat_resampler_valid)
  have f: "files ?w logo_path = Some (File True (Decodable ?img))" by (rule blocked_world_file)
  have a: "fst (resize_logo flat_resampler ?w) = Inr False" by (simp add: rl)
  have b: "files (snd (resize_logo flat_resampler ?w)) (output_path ''mipmap-hdpi'') = None"
    using nf by (simp add: rl print_msg_def)
  from v f a b show ?thesis by blast
qed

lemma logo_not_output: "logo_path \<noteq> output_path f"
  by (simp add: logo_path_def output_path_def folder_path_def)

lemma densities_Cons: "\<exists>d ds. densities = d # ds"
  by (simp add: densities_def)

lemma sample_run_succeeds:
  "\<exists>w'. resize_logo flat_resampler (logo_world (Decodable (dot ''RGBA'' f p))) = (Inr True, w')"
proof -
  from resize_logo_succeeds [OF logo_world_file flat_resampler_valid logo_world_can_hold,
      of f p]
  show ?thesis by metis
qed

text \<open>
  Claim C10. \<^verbatim>\<open>resize_logo\<close> never changes the colour mode: after a run that returned
  \<^verbatim>\<open>True\<close>, each of the five \<^verbatim>\<open>ic_launcher.png\<close> files holds an image of the mode of
  the decoded \<^verbatim>\<open>logo.png\<close>. In particular an RGBA source gives five RGBA outputs, alpha
  channel included.
\<close>

theorem resizer_keeps_mode:
  assumes "files w logo_path = Some (File wr (Decodable img))"
    and "resize_logo rs w = (Inr True, w')"
  shows "\<forall>d\<in>set densities. \<exists>out.
           files w' (output_path (fst d)) = Some (File True (Decodable out))
           \<and> mode out = mode img"
proof (cases rule: resize_logo_cases [of w rs])
  case missing
  with assms show ?thesis by simp
next
  case (unreadable e)
  with assms show ?thesis by simp
next
  case (failed wr' img' e w2)
  with assms show ?thesis by simp
next
  case (finished wr' img' w2)
  with assms have i: "img' = img" and w': "files w' = files w2" by auto
  from resize_each_progress [OF densities_distinct finished(2)] i
  have ins: "\<And>d. d \<in> set densities \<Longrightarrow> installed rs img (files w2) d" by auto
  show ?thesis
  proof
    fix d assume "d \<in> set densities"
    from installedD [OF ins [OF this]] obtain resized where
      "mode resized = mode img"
      "files w2 (output_path (fst d))
          = Some (File True (Decodable (resized\<lparr>format := Some ''PNG''\<rparr>)))" by blast
    then show "\<exists>out. files w' (output_path (fst d)) = Some (File True (Decodable out))
           \<and> mode out = mode img"
      using w' by (intro exI [of _ "resized\<lparr>format := Some ''PNG''\<rparr>"]) simp
  qed
qed

theorem resizer_keeps_mode_witness:
  "\<exists>w' out. resize_logo flat_resampler
           (logo_world (Decodable (dot ''RGBA'' (Some ''PNG'') [1, 2, 3, 4]))) = (Inr True, w')
     \<and> mode (dot ''RGBA'' (Some ''PNG'') [1, 2, 3, 4]) = ''RGBA''
     \<and> files w' (output_path ''mipmap-mdpi'') = Some (File True (Decodable out))
     \<and> mode out = ''RGBA''"
proof -
  let ?img = "dot ''RGBA'' (Some ''PNG'') [1, 2, 3, 4]"
  let ?w = "logo_world (Decodable ?img)"
  from sample_run_succeeds obtain w' where r: "resize_logo flat_resampler ?w = (Inr True, w')"
    by blast
  from resizer_keeps_mode [OF logo_world_file r] mdpi_in_densities
  obtain out where "files w' (output_path ''mipmap-mdpi'') = Some (File True (Decodable out))"
    "mode out = mode ?img" by fastforce
  with r show ?thesis by (auto simp: dot_simps)
qed

text \<open>
  Claim C8. \<^verbatim>\<open>resize_logo\<close> is idempotent. When a run has returned \<^verbatim>\<open>True\<close>, the logo
  is unchanged and the five targets are in place; a second run on the world the first
  one left returns \<^verbatim>\<open>True\<close> too, and it does the whole work again: its effects are the
  banner, the decode, then for each of the five targets the directory creation (which
  tolerates the directory that now exists), the write and the printed line, then the
  three closing lines. Each of the five writes overwrites the output with the content it
  already had, so the five targets are in place afterwards and the file tree is exactly
  the one the first run left: no path is added or removed.
\<close>

theorem resizer_rerun_overwrites_identically:
  assumes "resize_logo rs w = (Inr True, w1)"
  shows "\<exists>w2 wr img.
       files w logo_path = Some (File wr (Decodable img))
     \<and> files w1 logo_path = Some (File wr (Decodable img))
     \<and> list_all (installed rs img (files w1)) densities
     \<and> resize_logo rs w1 = (Inr True, w2)
     \<and> events w2 = events w1
          @ [Print ResizingBanner, Opened logo_path, Print (OriginalLogoSize (size_wh img))]
          @ concat (map target_events densities)
          @ [Print ResizingComplete, Print AllIconsCreated, Print WillDisplayLogo]
     \<and> list_all (\<lambda>d. Saved (output_path (fst d)) \<in> set (drop (length (events w1)) (events w2)))
          densities
     \<and> list_all (installed rs img (files w2)) densities
     \<and> files w2 = files w1"
proof (cases rule: resize_logo_cases [of w rs])
  case missing
  with assms show ?thesis by simp
next
  case (unreadable e)
  with assms show ?thesis by simp
next
  case (failed wr img e w2)
  with assms show ?thesis by simp
next
  case (finished wr img wa)
  let ?w0 = "w\<lparr>events := events w @ [Print ResizingBanner, Opened logo_path,
                                    Print (OriginalLogoSize (size_wh img))]\<rparr>"
  let ?pre = "[Print ResizingBanner, Opened logo_path, Print (OriginalLogoSize (size_wh img))]"
  let ?post = "[Print ResizingComplete, Print AllIconsCreated, Print WillDisplayLogo]"
  from finished assms have f1: "files w1 = files wa" by auto
  have logo: "files w1 logo_path = Some (File wr (Decodable img))"
  proof (rule ccontr)
    assume "files w1 logo_path \<noteq> Some (File wr (Decodable img))"
    with f1 finished(1) have "files wa logo_path \<noteq> files ?w0 logo_path" by simp
    from resize_each_frame [OF finished(2) this] finished(1) logo_not_output
    show False by auto
  qed
  from resize_each_progress [OF densities_distinct finished(2)] f1
  have ins: "\<And>d. d \<in> set densities \<Longrightarrow> installed rs img (files w1) d" by auto
  obtain d ds where dd: "densities = d # ds" using densities_Cons by blast
  from finished(2) have "intact img \<and> mode img \<in> set png_modes"
    unfolding dd by (rule resize_each_Inr_valid)
  then have png: "mode img \<in> set png_modes" by simp
  let ?w1 = "w1\<lparr>events := events w1 @ ?pre\<rparr>"
  have idle: "resize_each rs img densities ?w1
      = (Inr (), ?w1\<lparr>events := events ?w1 @ concat (map target_events densities)\<rparr>)"
  proof (rule resize_each_idle [OF png])
    show "installed rs img (files ?w1) d" if "d \<in> set densities" for d
      using ins [OF that] by simp
  qed
  let ?w2 = "w1\<lparr>events := events w1 @ ?pre @ concat (map target_events densities) @ ?post\<rparr>"
  have run2: "resize_logo rs w1 = (Inr True, ?w2)"
  proof (cases rule: resize_logo_cases [of w1 rs])
    case missing
    with logo show ?thesis by simp
  next
    case (unreadable e)
    with logo show ?thesis by simp
  next
    case (failed wr' img' e wb)
    with logo idle show ?thesis by simp
  next
    case F: (finished wr' img' wb)
    with logo idle have "wb = ?w1\<lparr>events := events ?w1 @ concat (map target_events densities)\<rparr>"
      by simp
    with F(3) show ?thesis by simp
  qed
  have saved: "list_all (\<lambda>d. Saved (output_path (fst d))
        \<in> set (drop (length (events w1)) (events ?w2))) densities"
    unfolding list_all_iff
  proof
    fix d assume "d \<in> set densities"
    then have "Saved (output_path (fst d)) \<in> set (concat (map target_events densities))"
      by (auto simp: target_events_def)
    then show "Saved (output_path (fst d)) \<in> set (drop (length (events w1)) (events ?w2))"
      by simp
  qed
  show ?thesis
  proof (intro exI [of _ ?w2] exI [of _ wr] exI [of _ img] conjI)
    show "files w logo_path = Some (File wr (Decodable img))" by (rule finished(1))
    show "files w1 logo_path = Some (File wr (Decodable img))" by (rule logo)
    show "list_all (installed rs img (files w1)) densities" using ins by (simp add: list_all_iff)
    show "resize_logo rs w1 = (Inr True, ?w2)" by (rule run2)
    show "events ?w2 = events w1 @ ?pre @ concat (map target_events densities) @ ?post" by simp
    show "list_all (\<lambda>d. Saved (output_path (fst d))
        \<in> set (drop (length (events w1)) (events ?w2))) densities" by (rule saved)
    show "list_all (installed rs img (files ?w2)) densities" using ins by (simp add: list_all_iff)
    show "files ?w2 = files w1" by simp
  qed
qed

theorem resizer_rerun_overwrites_identically_witness:
  "\<exists>w1 w2. resize_logo flat_resampler
           (logo_world (Decodable (dot ''RGBA'' (Some ''PNG'') [1, 2, 3, 4]))) = (Inr True, w1)
     \<and> resize_logo flat_resampler w1 = (Inr True, w2) \<and> files w2 = files w1
     \<and> Saved (output_path ''mipmap-mdpi'') \<in> set (drop (length (events w1)) (events w2))
     \<and> Saved (output_path ''mipmap-xxxhdpi'') \<in> set (drop (length (events w1)) (events w2))
     \<and> installed flat_resampler (dot ''RGBA'' (Some ''PNG'') [1, 2, 3, 4]) (files w2)
          (''mipmap-mdpi'', 48)"
proof -
  let ?img = "dot ''RGBA'' (Some ''PNG'') [1, 2, 3, 4]"
  let ?w = "logo_world (Decodable ?img)"
  from sample_run_succeeds obtain w1 where r: "resize_logo flat_resampler ?w = (Inr True, w1)"
    by blast
  from resizer_rerun_overwrites_identically [OF r] obtain w2 wr img where
    a: "files ?w logo_path = Some (File wr (Decodable img))"
       "resize_logo flat_resampler w1 = (Inr True, w2)"
       "list_all (\<lambda>d. Saved (output_path (fst d)) \<in> set (drop (length (events w1)) (events w2)))
          densities"
       "list_all (installed flat_resampler img (files w2)) densities"
       "files w2 = files w1"
    by blast
  from a(1) have i: "img = ?img" by (simp add: logo_world_file)
  from a(3) mdpi_in_densities xxxhdpi_in_densities
  have s: "Saved (output_path ''mipmap-mdpi'') \<in> set (drop (length (events w1)) (events w2))"
    "Saved (output_path ''mipmap-xxxhdpi'') \<in> set (drop (length (events w1)) (events w2))"
    by (auto simp: list_all_iff)
  from a(4) mdpi_in_densities i
  have "installed flat_resampler ?img (files w2) (''mipmap-mdpi'', 48)"
    by (auto simp: list_all_iff)
  with r a(2,5) s show ?thesis by blast
qed







lemma Saved_in_targets:
  "Saved p \<in> set (concat (map target_events ds)) \<Longrightarrow> \<exists>d\<in>set ds. p = output_path (fst d)"
  by (induction ds) (auto simp: target_events_def)

lemma resize_each_saved:
  assumes "resize_each rs img densities w = (r, w')"
  shows "\<exists>evs. events w' = events w @ evs
     \<and> (\<forall>p. Saved p \<in> set evs \<longrightarrow>
           (\<exists>d\<in>set densities. p = output_path (fst d) \<and> installed rs img (files w') d))"
proof -
  from resize_each_progress [OF densities_distinct assms] obtain n extra where
    ev: "events w' = events w @ concat (map target_events (take n densities)) @ extra" and
    ins: "\<forall>d\<in>set (take n densities). installed rs img (files w') d" and
    res: "case r of
          Inr u \<Rightarrow> n = length densities \<and> extra = []
        | Inl e \<Rightarrow> n < length densities
            \<and> (extra = [] \<or> extra = [MadeDirs (folder_path (fst (densities ! n)))])"
    by blast
  have ex: "Saved p \<notin> set extra" for p using res by (cases r) auto
  let ?evs = "concat (map target_events (take n densities)) @ extra"
  have "\<exists>d\<in>set densities. p = output_path (fst d) \<and> installed rs img (files w') d"
    if "Saved p \<in> set ?evs" for p
  proof -
    from that ex have "Saved p \<in> set (concat (map target_events (take n densities)))" by simp
    from Saved_in_targets [OF this] obtain d where
      d: "d \<in> set (take n densities)" "p = output_path (fst d)" by blast
    from d(1) have "d \<in> set densities" by (rule in_set_takeD)
    with d ins show ?thesis by blast
  qed
  with ev show ?thesis by (intro exI [of _ ?evs]) simp
qed

text \<open>
  Claim C3. \<^verbatim>\<open>resize_logo\<close> never raises: it always returns a value. An exception that
  leaves the body of its \<^verbatim>\<open>try\<close> block (from the decode, a resize, a directory creation
  or a write) is turned into the return value \<^verbatim>\<open>False\<close> after the error line is
  printed, in the world the raise left. Nothing is rolled back: every output whose write
  completed during the run is in place in the final file tree, with its directory and its
  resized content, whether or not a later target failed.
\<close>

theorem resizer_catches_exceptions:
  "(\<exists>b w'. resize_logo rs w = (Inr b, w'))
   \<and> (path_exists w logo_path \<and> resize_body rs (print_msg ResizingBanner w) = (Inl e, w1)
        \<longrightarrow> resize_logo rs w = (Inr False, print_msg (ErrorResizingLogo e) w1))
   \<and> (files w logo_path = Some (File wr (Decodable img))
        \<longrightarrow> (\<exists>evs. events (snd (resize_logo rs w)) = events w @ evs
              \<and> (\<forall>p. Saved p \<in> set evs \<longrightarrow>
                    (\<exists>d\<in>set densities. p = output_path (fst d)
                       \<and> installed rs img (files (snd (resize_logo rs w))) d))))"
proof (intro conjI impI)
  show "\<exists>b w'. resize_logo rs w = (Inr b, w')"
    by (cases rule: resize_logo_cases [of w rs]) blast+
next
  assume "path_exists w logo_path \<and> resize_body rs (print_msg ResizingBanner w) = (Inl e, w1)"
  then have "path_exists (print_msg ResizingBanner w) logo_path"
    and "resize_body rs (print_msg ResizingBanner w) = (Inl e, w1)"
    by (simp_all add: path_exists_def print_msg_def)
  then show "resize_logo rs w = (Inr False, print_msg (ErrorResizingLogo e) w1)"
    by (simp add: resize_logo_def Let_def)
next
  assume f: "files w logo_path = Some (File wr (Decodable img))"
  show "\<exists>evs. events (snd (resize_logo rs w)) = events w @ evs
              \<and> (\<forall>p. Saved p \<in> set evs \<longrightarrow>
                    (\<exists>d\<in>set densities. p = output_path (fst d)
                       \<and> installed rs img (files (snd (resize_logo rs w))) d))"
  proof (cases rule: resize_logo_cases [of w rs])
    case missing
    with f show ?thesis by simp
  next
    case (unreadable e)
    with f show ?thesis by simp
  next
    case (failed wr' img' e' w2)
    with f have i: "img' = img" by simp
    let ?pre = "[Print ResizingBanner, Opened logo_path, Print (OriginalLogoSize (size_wh img))]"
    from resize_each_saved [OF failed(2)] i obtain evs where
      ev: "events w2 = events w @ ?pre @ evs" and
      s: "\<forall>p. Saved p \<in> set evs \<longrightarrow>
           (\<exists>d\<in>set densities. p = output_path (fst d) \<and> installed rs img (files w2) d)"
      by auto
    from failed(3) ev s show ?thesis
      by (intro exI [of _ "?pre @ evs @ [Print (ErrorResizingLogo e')]"]) simp
  next
    case (finished wr' img' w2)
    with f have i: "img' = img" by simp
    let ?pre = "[Print ResizingBanner, Opened logo_path, Print (OriginalLogoSize (size_wh img))]"
    let ?post = "[Print ResizingComplete, Print AllIconsCreated, Print WillDisplayLogo]"
    from resize_each_saved [OF finished(2)] i obtain evs where
      ev: "events w2 = events w @ ?pre @ evs" and
      s: "\<forall>p. Saved p \<in> set evs \<longrightarrow>
           (\<exists>d\<in>set densities. p = output_path (fst d) \<and> installed rs img (files w2) d)"
      by auto
    from finished(3) ev s show ?thesis
      by (intro exI [of _ "?pre @ evs @ ?post"]) simp
  qed
qed

theorem resizer_catches_exceptions_witness:
  "path_exists (blocked_world (Decodable (dot ''RGBA'' (Some ''PNG'') [1, 2, 3, 4]))) logo_path
   \<and> fst (resize_body flat_resampler
          (print_msg ResizingBanner
             (blocked_world (Decodable (dot ''RGBA'' (Some ''PNG'') [1, 2, 3, 4])))))
       = Inl FileExistsError
   \<and> resize_logo flat_resampler
         (blocked_world (Decodable (dot ''RGBA'' (Some ''PNG'') [1, 2, 3, 4])))
       = (Inr False,
          print_msg (ErrorResizingLogo FileExistsError)
            (snd (resize_body flat_resampler
               (print_msg ResizingBanner
                  (blocked_world (Decodable (dot ''RGBA'' (Some ''PNG'') [1, 2, 3, 4])))))))
   \<and> Saved (output_path ''mipmap-mdpi'')
       \<in> set (events (snd (resize_logo flat_resampler
                 (blocked_world (Decodable (dot ''RGBA'' (Some ''PNG'') [1, 2, 3, 4]))))))
   \<and> installed flat_resampler (dot ''RGBA'' (Some ''PNG'') [1, 2, 3, 4])
       (files (snd (resize_logo flat_resampler
                 (blocked_world (Decodable (dot ''RGBA'' (Some ''PNG'') [1, 2, 3, 4]))))))
       (''mipmap-mdpi'', 48)"
proof -
  let ?img = "dot ''RGBA'' (Some ''PNG'') [1, 2, 3, 4]"
  let ?w = "blocked_world (Decodable ?img)"
  let ?b = "resize_body flat_resampler (print_msg ResizingBanner ?w)"
  have ex: "path_exists ?w logo_path" by (simp add: path_exists_def blocked_world_file)
  have rb: "?b = (Inl FileExistsError, snd ?b)"
    using blocked_run_raises by (metis prod.collapse)
  note t = resizer_catches_exceptions [of flat_resampler ?w FileExistsError "snd ?b" True ?img]
  from t ex rb have rl: "resize_logo flat_resampler ?w
      = (Inr False, print_msg (ErrorResizingLogo FileExistsError) (snd ?b))" by blast
  from t blocked_world_file blocked_world_events obtain evs where
    ev: "events (snd (resize_logo flat_resampler ?w)) = evs" and
    s: "\<forall>p. Saved p \<in> set evs \<longrightarrow>
          (\<exists>d\<in>set densities. p = output_path (fst d)
             \<and> installed flat_resampler ?img (files (snd (resize_logo flat_resampler ?w))) d)"
    by auto
  have sv: "Saved (output_path ''mipmap-mdpi'') \<in> set (events (snd (resize_logo flat_resampler ?w)))"
    using blocked_run_saved by (simp add: rl print_msg_def)
  with ev s obtain d where d: "d \<in> set densities"
    "output_path ''mipmap-mdpi'' = output_path (fst d)"
    "installed flat_resampler ?img (files (snd (resize_logo flat_resampler ?w))) d" by blast
  from d(1,2) have "d = (''mipmap-mdpi'', 48)"
    by (auto simp: densities_def folder_path_facts)
  with d(3) ex blocked_run_raises rl sv show ?thesis by simp
qed

end
